theory Spec2Isabelle
  imports Main "HOL-Library.Word" "HOL-Library.Signed_Division"
begin

unbundle bit_operations_syntax

section \<open>Data model of \<open>tests/siocoutq.c\<close>\<close>

text \<open>
  The program runs on an LP64 Linux host: \<open>unsigned long\<close> and \<open>long\<close> are 64 bits wide,
  \<open>int\<close> is 32 bits wide. Values of type \<open>int\<close> that provably stay inside their range
  (loop counters bounded by another \<open>int\<close>, file descriptors, errno values) are HOL
  integers; every conversion from \<open>unsigned long\<close> to \<open>int\<close> is written out.
\<close>

type_synonym ulong = "64 word"

text \<open>\<open>(int) x\<close> for an \<open>unsigned long\<close> \<open>x\<close>: the low 32 bits, read as two's complement.\<close>

definition int_of_ulong :: "ulong \<Rightarrow> int" where
  "int_of_ulong x = sint (ucast x :: 32 word)"

text \<open>
  \<open>union sockaddr_ip\<close>: both members start with the address family, followed by the
  port; the remaining bytes (the address itself) are never inspected by the program.
\<close>

datatype sa_family = AF_UNSPEC | AF_INET | AF_INET6 | AF_OTHER nat

record sockaddr_ip =
  sin_family :: sa_family
  sin_port :: "16 word"
  sin_addr :: "128 word"

text \<open>\<open>struct timeval\<close>: seconds and microseconds, both \<open>long\<close>.\<close>

record timeval =
  tv_sec :: "64 word"
  tv_usec :: "64 word"

text \<open>\<open>struct socket\<close>. Only \<open>fd\<close> is ever written or read.\<close>

record socket =
  fd :: int
  sent_id :: "32 word"
  sent_ts :: timeval
  nreplies :: "32 word"

subsection \<open>The operating system\<close>

text \<open>
  Every system call the program makes is logged, with its outcome, in a trace. The
  kernel is a family of oracles: each one maps the trace so far and the arguments of the
  call to the outcome of the call, so that an outcome may depend on everything that
  happened before.

  Outcomes: for \<open>socket\<close>, \<open>Inr v\<close> is the value returned and \<open>Inl e\<close> is a return of
  \<open>-1\<close> with \<open>errno\<close> set to \<open>e\<close>. For \<open>connect\<close>, \<open>bind\<close>, the TOS \<open>ioctl\<close> and
  \<open>sendto\<close> of an empty message, \<open>None\<close> is a return of \<open>0\<close> and \<open>Some e\<close> a return of
  \<open>-1\<close> with \<open>errno\<close> set to \<open>e\<close>. For \<open>getsockname\<close>, \<open>Inr a\<close> is a return of \<open>0\<close>
  with the address \<open>a\<close> stored. For the \<open>TIOCOUTQ\<close> \<open>ioctl\<close>, \<open>Inr p\<close> is a return of
  \<open>0\<close> with \<open>p\<close> stored in \<open>pend\<close>.
\<close>

datatype sock_domain = PF_RDS | PF_FAMILY sa_family
datatype sock_type = SOCK_SEQPACKET | SOCK_DGRAM

datatype event =
    Ev_socket sock_domain sock_type "int + int"
  | Ev_connect int sockaddr_ip nat "int option"
  | Ev_getsockname int "int + sockaddr_ip"
  | Ev_close int
  | Ev_bind int sockaddr_ip nat "int option"
  | Ev_settos int ulong "int option"
  | Ev_sendto int sockaddr_ip nat "int option"
  | Ev_outq int "int + int"
  | Ev_gettimeofday timeval

record env =
  socket_sys :: "event list \<Rightarrow> sock_domain \<Rightarrow> sock_type \<Rightarrow> int + int"
  connect_sys :: "event list \<Rightarrow> int \<Rightarrow> sockaddr_ip \<Rightarrow> nat \<Rightarrow> int option"
  getsockname_sys :: "event list \<Rightarrow> int \<Rightarrow> int + sockaddr_ip"
  bind_sys :: "event list \<Rightarrow> int \<Rightarrow> sockaddr_ip \<Rightarrow> nat \<Rightarrow> int option"
  settos_sys :: "event list \<Rightarrow> int \<Rightarrow> ulong \<Rightarrow> int option"
  sendto_sys :: "event list \<Rightarrow> int \<Rightarrow> sockaddr_ip \<Rightarrow> nat \<Rightarrow> int option"
  outq_sys :: "event list \<Rightarrow> int \<Rightarrow> int + int"
  gettimeofday_sys :: "event list \<Rightarrow> timeval"

text \<open>
  Lines written to standard output by the two \<open>printf\<close> calls, by their arguments. The
  second argument of the summary is \<open>tdiff\<close>: the integer that the \<open>float\<close> was
  converted from (see \<open>tdiff_of\<close> below).
\<close>

datatype out_line =
    Spun int int          \<comment> \<open>\<open>Spun for %d counts on socket %d\<close>\<close>
  | Summary int int int   \<comment> \<open>\<open>%d sockets took %f msec to send and spin for %d packets\<close>\<close>

text \<open>
  The program state: the file-scope variables of the program, \<open>errno\<close>, the trace of
  system calls and the lines printed so far.
\<close>

record state =
  opt_count :: ulong
  opt_srcaddr :: sockaddr_ip
  opt_dstaddr :: sockaddr_ip
  opt_tos :: ulong
  use_siocoutq :: bool
  nsockets :: ulong
  errno :: int
  trace :: "event list"
  out :: "out_line list"

definition nsockets_min :: ulong where "nsockets_min = 1"
definition nsockets_max :: ulong where "nsockets_max = 32"

definition sockaddr_zero :: sockaddr_ip where
  "sockaddr_zero = \<lparr>sin_family = AF_UNSPEC, sin_port = 0, sin_addr = 0\<rparr>"

text \<open>The state at program start: the static initialisers of the file-scope variables.\<close>

definition init_state :: state where
  "init_state = \<lparr>opt_count = 0, opt_srcaddr = sockaddr_zero, opt_dstaddr = sockaddr_zero,
     opt_tos = 0, use_siocoutq = False, nsockets = 8, errno = 0, trace = [], out = []\<rparr>"

text \<open>
  \<open>die\<close> and \<open>die_errno\<close> print a message and call \<open>exit(1)\<close>: a function that may die
  returns either the message together with the state at the moment of death, or its
  value and the new state.
\<close>

datatype 'a result = Died string state | Ret 'a state

section \<open>System calls\<close>

text \<open>
  Each wrapper asks the oracle for the outcome of the call, appends the call to the
  trace, sets \<open>errno\<close> when the call fails, and returns the value the C call returns.
\<close>

definition sys_socket :: "env \<Rightarrow> sock_domain \<Rightarrow> sock_type \<Rightarrow> state \<Rightarrow> int \<times> state" where
  "sys_socket env d t s =
     (case socket_sys env (trace s) d t of
        Inl e \<Rightarrow> (- 1, s\<lparr>errno := e, trace := trace s @ [Ev_socket d t (Inl e)]\<rparr>)
      | Inr v \<Rightarrow> (v, s\<lparr>trace := trace s @ [Ev_socket d t (Inr v)]\<rparr>))"

definition sys_connect :: "env \<Rightarrow> int \<Rightarrow> sockaddr_ip \<Rightarrow> nat \<Rightarrow> state \<Rightarrow> int \<times> state" where
  "sys_connect env f a alen s =
     (case connect_sys env (trace s) f a alen of
        None \<Rightarrow> (0, s\<lparr>trace := trace s @ [Ev_connect f a alen None]\<rparr>)
      | Some e \<Rightarrow> (- 1, s\<lparr>errno := e, trace := trace s @ [Ev_connect f a alen (Some e)]\<rparr>))"

text \<open>\<open>getsockname(ufd, src, &alen)\<close> with \<open>src = &opt_srcaddr\<close>.\<close>

definition sys_getsockname :: "env \<Rightarrow> int \<Rightarrow> state \<Rightarrow> int \<times> state" where
  "sys_getsockname env f s =
     (case getsockname_sys env (trace s) f of
        Inl e \<Rightarrow> (- 1, s\<lparr>errno := e, trace := trace s @ [Ev_getsockname f (Inl e)]\<rparr>)
      | Inr a \<Rightarrow> (0, s\<lparr>opt_srcaddr := a, trace := trace s @ [Ev_getsockname f (Inr a)]\<rparr>))"

definition sys_close :: "int \<Rightarrow> state \<Rightarrow> state" where
  "sys_close f s = s\<lparr>trace := trace s @ [Ev_close f]\<rparr>"

definition sys_bind :: "env \<Rightarrow> int \<Rightarrow> sockaddr_ip \<Rightarrow> nat \<Rightarrow> state \<Rightarrow> int \<times> state" where
  "sys_bind env f a alen s =
     (case bind_sys env (trace s) f a alen of
        None \<Rightarrow> (0, s\<lparr>trace := trace s @ [Ev_bind f a alen None]\<rparr>)
      | Some e \<Rightarrow> (- 1, s\<lparr>errno := e, trace := trace s @ [Ev_bind f a alen (Some e)]\<rparr>))"

text \<open>\<open>ioctl(fd, SIOCRDSSETTOS, &opt_tos)\<close>.\<close>

definition sys_ioctl_settos :: "env \<Rightarrow> int \<Rightarrow> state \<Rightarrow> int \<times> state" where
  "sys_ioctl_settos env f s =
     (case settos_sys env (trace s) f (opt_tos s) of
        None \<Rightarrow> (0, s\<lparr>trace := trace s @ [Ev_settos f (opt_tos s) None]\<rparr>)
      | Some e \<Rightarrow> (- 1, s\<lparr>errno := e, trace := trace s @ [Ev_settos f (opt_tos s) (Some e)]\<rparr>))"

text \<open>\<open>sendto(fd, NULL, 0, 0, dst, msglen)\<close>.\<close>

definition sys_sendto :: "env \<Rightarrow> int \<Rightarrow> sockaddr_ip \<Rightarrow> nat \<Rightarrow> state \<Rightarrow> int \<times> state" where
  "sys_sendto env f dst msglen s =
     (case sendto_sys env (trace s) f dst msglen of
        None \<Rightarrow> (0, s\<lparr>trace := trace s @ [Ev_sendto f dst msglen None]\<rparr>)
      | Some e \<Rightarrow> (- 1, s\<lparr>errno := e, trace := trace s @ [Ev_sendto f dst msglen (Some e)]\<rparr>))"

text \<open>\<open>ioctl(fd, TIOCOUTQ, &pend)\<close>: the return value and the value stored in \<open>pend\<close>.\<close>

definition sys_ioctl_outq :: "env \<Rightarrow> int \<Rightarrow> state \<Rightarrow> (int + int) \<times> state" where
  "sys_ioctl_outq env f s =
     (case outq_sys env (trace s) f of
        Inl e \<Rightarrow> (Inl e, s\<lparr>errno := e, trace := trace s @ [Ev_outq f (Inl e)]\<rparr>)
      | Inr p \<Rightarrow> (Inr p, s\<lparr>trace := trace s @ [Ev_outq f (Inr p)]\<rparr>))"

definition sys_gettimeofday :: "env \<Rightarrow> state \<Rightarrow> timeval \<times> state" where
  "sys_gettimeofday env s =
     (let tv = gettimeofday_sys env (trace s)
      in (tv, s\<lparr>trace := trace s @ [Ev_gettimeofday tv]\<rparr>))"

section \<open>The probing engine\<close>

text \<open>
  \<open>usec_sub\<close>: the seconds are subtracted as \<open>long\<close>, the product with \<open>1000000UL\<close> and
  the two additions are \<open>unsigned long\<close> arithmetic, and the result is read as \<open>long\<close>
  (by \<open>sint\<close>, at the use).
\<close>

definition usec_sub :: "timeval \<Rightarrow> timeval \<Rightarrow> 64 word" where
  "usec_sub a b = (tv_sec a - tv_sec b) * 1000000 + tv_usec a - tv_usec b"

text \<open>
  The \<open>for\<close> loop of \<open>send_on_one_socket\<close>, entered with the current values of \<open>idx\<close>
  and \<open>ret\<close>.
\<close>

function send_loop ::
  "env \<Rightarrow> int \<Rightarrow> sockaddr_ip \<Rightarrow> nat \<Rightarrow> int \<Rightarrow> int \<Rightarrow> int \<Rightarrow> state \<Rightarrow> int \<times> state" where
  "send_loop env f dst msglen per_sock idx ret s =
     (if idx < per_sock then
        (case sys_sendto env f dst msglen s of
           (rv, s1) \<Rightarrow>
             if rv \<noteq> 0 then (errno s1, s1)
             else send_loop env f dst msglen per_sock (idx + 1) ret s1)
      else (ret, s))"
  by pat_completeness auto
termination
  by (relation "measure (\<lambda>(env, f, dst, msglen, per_sock, idx, ret, s). nat (per_sock - idx))")
    auto

definition send_on_one_socket ::
  "env \<Rightarrow> int \<Rightarrow> sockaddr_ip \<Rightarrow> nat \<Rightarrow> int \<Rightarrow> state \<Rightarrow> int \<times> state" where
  "send_on_one_socket env f dst msglen per_sock s = send_loop env f dst msglen per_sock 0 0 s"

text \<open>
  The \<open>do ... while\<close> loop of \<open>spin_on_one_socket\<close>, entered with the current value of
  \<open>sp_cnt\<close>: the body runs first, the condition is tested afterwards.
\<close>

function spin_loop :: "env \<Rightarrow> int \<Rightarrow> int \<Rightarrow> state \<Rightarrow> int \<times> state" where
  "spin_loop env f sp_cnt s =
     (case sys_ioctl_outq env f s of
        (Inl e, s1) \<Rightarrow> (- errno s1, s1)
      | (Inr pend, s1) \<Rightarrow>
          (if pend \<noteq> 0 \<and> sp_cnt + 1 < 100000
           then spin_loop env f (sp_cnt + 1) s1
           else (sp_cnt + 1, s1)))"
  by pat_completeness auto
termination
  by (relation "measure (\<lambda>(env, f, sp_cnt, s). nat (100000 - sp_cnt))") auto

definition spin_on_one_socket :: "env \<Rightarrow> int \<Rightarrow> state \<Rightarrow> int \<times> state" where
  "spin_on_one_socket env f s = spin_loop env f 0 s"

text \<open>
  The \<open>for\<close> loop of \<open>send_on_n_sockets_seq\<close>, entered with the current values of
  \<open>idx\<close> and \<open>ret\<close>. \<open>dst\<close> is the address the pointer argument points to.
\<close>

function seq_loop ::
  "env \<Rightarrow> socket list \<Rightarrow> sockaddr_ip \<Rightarrow> int \<Rightarrow> int \<Rightarrow> nat \<Rightarrow> int \<Rightarrow> int \<Rightarrow> state
     \<Rightarrow> int \<times> state" where
  "seq_loop env nsocks dst n_socks per_sock msglen idx ret s =
     (if idx < n_socks then
        (case send_on_one_socket env (fd (nsocks ! nat idx)) dst msglen per_sock s of
           (ret1, s1) \<Rightarrow>
             if ret1 \<noteq> 0 then (ret1, s1)
             else if use_siocoutq s1 then
               (case spin_on_one_socket env (fd (nsocks ! nat idx)) s1 of
                  (spin_count, s2) \<Rightarrow>
                    seq_loop env nsocks dst n_socks per_sock msglen (idx + 1) ret1
                      (s2\<lparr>out := out s2 @ [Spun spin_count idx]\<rparr>))
             else seq_loop env nsocks dst n_socks per_sock msglen (idx + 1) ret1 s1)
      else (ret, s))"
  by pat_completeness auto
termination
  by (relation "measure (\<lambda>(env, nsocks, dst, n_socks, per_sock, msglen, idx, ret, s).
        nat (n_socks - idx))") auto

definition send_on_n_sockets_seq ::
  "env \<Rightarrow> socket list \<Rightarrow> sockaddr_ip \<Rightarrow> int \<Rightarrow> int \<Rightarrow> nat \<Rightarrow> state \<Rightarrow> int \<times> state" where
  "send_on_n_sockets_seq env nsocks dst n_socks per_sock msglen s =
     seq_loop env nsocks dst n_socks per_sock msglen 0 0 s"

section \<open>Socket creation\<close>

text \<open>
  \<open>htons\<close> on the little-endian host swaps the two bytes. \<open>sizeof(struct sockaddr_in)\<close>
  and \<open>sizeof(struct sockaddr_in6)\<close> are those of the Linux ABI.
\<close>

definition htons :: "16 word \<Rightarrow> 16 word" where
  "htons x = push_bit 8 x OR drop_bit 8 x"

definition sizeof_sockaddr_in :: nat where "sizeof_sockaddr_in = 16"
definition sizeof_sockaddr_in6 :: nat where "sizeof_sockaddr_in6 = 28"

text \<open>
  \<open>rds_socket\<close> is only ever called with \<open>src = &opt_srcaddr\<close> and \<open>dst = &opt_dstaddr\<close>,
  so the model reads and writes the two file-scope variables directly.

  First the block that guesses the local source address (the body of
  \<open>if (src->addr4.sin_family == AF_UNSPEC)\<close>), entered with the UDP socket still to be
  created.
\<close>

definition rds_guess_src :: "env \<Rightarrow> state \<Rightarrow> unit result" where
  "rds_guess_src env s =
     (case sys_socket env (PF_FAMILY (sin_family (opt_dstaddr s))) SOCK_DGRAM s of
        (ufd, s1) \<Rightarrow>
          if ufd < 0 then Died ''unable to create UDP socket'' s1
          else if sin_family (opt_dstaddr s1) \<noteq> AF_INET \<and> sin_family (opt_dstaddr s1) \<noteq> AF_INET6
          then Died ''unknown destination address family'' s1
          else
            let alen = (if sin_family (opt_dstaddr s1) = AF_INET
                        then sizeof_sockaddr_in else sizeof_sockaddr_in6);
                s2 = s1\<lparr>opt_dstaddr := (opt_dstaddr s1)\<lparr>sin_port := htons 1\<rparr>\<rparr>
            in (case sys_connect env ufd (opt_dstaddr s2) alen s2 of
                  (rc, s3) \<Rightarrow>
                    if rc < 0 then Died ''unable to connect to %s'' s3
                    else
                      let s4 = s3\<lparr>opt_dstaddr := (opt_dstaddr s3)\<lparr>sin_port := 0\<rparr>\<rparr>
                      in (case sys_getsockname env ufd s4 of
                            (rg, s5) \<Rightarrow>
                              if rg < 0 then Died ''getsockname failed'' s5
                              else Ret () (sys_close ufd s5))))"

definition rds_socket :: "env \<Rightarrow> state \<Rightarrow> int result" where
  "rds_socket env s =
     (case sys_socket env PF_RDS SOCK_SEQPACKET s of
        (f, s1) \<Rightarrow>
          if f < 0 then Died ''unable to create RDS socket'' s1
          else
            (case (if sin_family (opt_srcaddr s1) = AF_UNSPEC
                   then rds_guess_src env s1 else Ret () s1) of
               Died m sd \<Rightarrow> Died m sd
             | Ret u s2 \<Rightarrow>
                 if sin_family (opt_srcaddr s2) \<noteq> AF_INET \<and> sin_family (opt_srcaddr s2) \<noteq> AF_INET6
                 then Died ''unknown source address family'' s2
                 else
                   let alen = (if sin_family (opt_srcaddr s2) = AF_INET
                               then sizeof_sockaddr_in else sizeof_sockaddr_in6);
                       s3 = s2\<lparr>opt_srcaddr := (opt_srcaddr s2)\<lparr>sin_port := 0\<rparr>\<rparr>
                   in (case sys_bind env f (opt_srcaddr s3) alen s3 of
                         (rb, s4) \<Rightarrow>
                           if rb \<noteq> 0 then Died ''bind() failed'' s4
                           else if opt_tos s4 \<noteq> 0 then
                             (case sys_ioctl_settos env f s4 of
                                (rt, s5) \<Rightarrow>
                                  if rt \<noteq> 0 then Died ''ERROR: failed to set TOS'' s5
                                  else Ret f s5)
                           else Ret f s4)))"

section \<open>The run\<close>

text \<open>
  The variable-length array \<open>socket[nsockets]\<close> of \<open>run_test\<close> is not initialised; the
  members the program never writes are given the value zero here.
\<close>

definition socket_uninit :: socket where
  "socket_uninit = \<lparr>fd = 0, sent_id = 0, sent_ts = \<lparr>tv_sec = 0, tv_usec = 0\<rparr>, nreplies = 0\<rparr>"

text \<open>
  The first \<open>for\<close> loop of \<open>run_test\<close>, entered with the current value of \<open>i\<close> and of
  the array. \<open>n\<close> is the value of \<open>nsockets\<close>, which nothing in the loop writes; the
  comparison \<open>i < nsockets\<close> is made in \<open>unsigned long\<close>, and \<open>i\<close> is never negative.
  (\<open>main\<close> calls \<open>run_test\<close> with \<open>nsockets\<close> between 1 and 32, so \<open>i\<close> stays far
  below the range of \<open>int\<close>.)
\<close>

function open_loop :: "env \<Rightarrow> ulong \<Rightarrow> int \<Rightarrow> socket list \<Rightarrow> state \<Rightarrow> socket list result" where
  "open_loop env n i socks s =
     (if i < uint n then
        (case rds_socket env s of
           Died m sd \<Rightarrow> Died m sd
         | Ret f s1 \<Rightarrow> open_loop env n (i + 1) (socks[nat i := (socks ! nat i)\<lparr>fd := f\<rparr>]) s1)
      else Ret socks s)"
  by pat_completeness auto
termination
  by (relation "measure (\<lambda>(env, n, i, socks, s). nat (uint n - i))") auto

text \<open>
  \<open>tdiff = usec_sub(&end, &start) / 1000\<close>: both operands are integers (\<open>long\<close> and
  \<open>int\<close>), so the division is the integer division of C, which truncates towards zero;
  only its quotient is converted to \<open>float\<close>. The model keeps the quotient.
\<close>

definition tdiff_of :: "timeval \<Rightarrow> timeval \<Rightarrow> int" where
  "tdiff_of end_tv start_tv = sint (usec_sub end_tv start_tv) sdiv 1000"

definition run_test :: "env \<Rightarrow> state \<Rightarrow> int result" where
  "run_test env s =
     (case open_loop env (nsockets s) 0 (replicate (unat (nsockets s)) socket_uninit) s of
        Died m sd \<Rightarrow> Died m sd
      | Ret socks s1 \<Rightarrow>
          let dst_len = (if sin_family (opt_dstaddr s1) = AF_INET
                         then sizeof_sockaddr_in else sizeof_sockaddr_in6)
          in (case sys_gettimeofday env s1 of
                (start_tv, s2) \<Rightarrow>
                  (case send_on_n_sockets_seq env socks (opt_dstaddr s2)
                          (int_of_ulong (nsockets s2)) (int_of_ulong (opt_count s2)) dst_len s2 of
                     (r, s3) \<Rightarrow>
                       (case sys_gettimeofday env s3 of
                          (end_tv, s4) \<Rightarrow>
                            Ret 0 (s4\<lparr>out := out s4 @
                              [Summary (int_of_ulong (nsockets s4)) (tdiff_of end_tv start_tv)
                                 (int_of_ulong (opt_count s4 * nsockets s4))]\<rparr>)))))"

section \<open>The command line\<close>

text \<open>
  The command line as \<open>getopt\<close> delivers it: one entry per option, in order. The
  argument of an option is given by what the C library makes of it: for \<open>-c\<close>, \<open>-n\<close>
  and \<open>-Q\<close> the value \<open>parse_long\<close> stores (\<open>None\<close> when it returns 0), for \<open>-I\<close>
  and for a positional argument the first address \<open>getaddrinfo\<close> returns (\<open>None\<close>
  when both lookups fail).
\<close>

datatype cli_opt =
    Opt_c "ulong option"
  | Opt_n "ulong option"
  | Opt_I "sockaddr_ip option"
  | Opt_Q "ulong option"
  | Opt_s
  | Opt_unknown

text \<open>\<open>parse_addr\<close>, after the two \<open>getaddrinfo\<close> calls: \<open>Some a\<close> stands for return value 1
  with \<open>a\<close> stored, \<open>None\<close> for return value 0.\<close>

definition parse_addr :: "sockaddr_ip option \<Rightarrow> state \<Rightarrow> sockaddr_ip option result" where
  "parse_addr ainfo s =
     (case ainfo of
        None \<Rightarrow> Ret None s
      | Some a \<Rightarrow>
          if sin_family a = AF_INET \<or> sin_family a = AF_INET6 then Ret (Some a) s
          else Died ''getaddrinfo() returns unsupported family'' s)"

text \<open>The \<open>getopt\<close> loop of \<open>main\<close>; the two flags are \<open>src_set\<close> and \<open>num_sock_set\<close>.\<close>

fun getopt_loop :: "cli_opt list \<Rightarrow> bool \<Rightarrow> bool \<Rightarrow> state \<Rightarrow> (bool \<times> bool) result" where
  "getopt_loop [] src_set num_sock_set s = Ret (src_set, num_sock_set) s"
| "getopt_loop (Opt_c v # opts) src_set num_sock_set s =
     (case v of
        None \<Rightarrow> Died ''Bad packet count'' s
      | Some c \<Rightarrow> getopt_loop opts src_set num_sock_set (s\<lparr>opt_count := c\<rparr>))"
| "getopt_loop (Opt_n v # opts) src_set num_sock_set s =
     (case v of
        None \<Rightarrow> Died ''Invalid number of sockets'' s
      | Some n \<Rightarrow>
          if n < nsockets_min \<or> n > nsockets_max
          then Died ''Invalid number of sockets'' (s\<lparr>nsockets := n\<rparr>)
          else getopt_loop opts src_set True (s\<lparr>nsockets := n\<rparr>))"
| "getopt_loop (Opt_I a # opts) src_set num_sock_set s =
     (case parse_addr a s of
        Died m sd \<Rightarrow> Died m sd
      | Ret None s1 \<Rightarrow> Died ''Unknown source address'' s1
      | Ret (Some x) s1 \<Rightarrow> getopt_loop opts True num_sock_set (s1\<lparr>opt_srcaddr := x\<rparr>))"
| "getopt_loop (Opt_Q v # opts) src_set num_sock_set s =
     (case v of
        None \<Rightarrow> Died ''Bad tos'' s
      | Some q \<Rightarrow> getopt_loop opts src_set num_sock_set (s\<lparr>opt_tos := q\<rparr>))"
| "getopt_loop (Opt_s # opts) src_set num_sock_set s =
     getopt_loop opts src_set num_sock_set (s\<lparr>use_siocoutq := True\<rparr>)"
| "getopt_loop (Opt_unknown # opts) src_set num_sock_set s = Died ''Unknown option'' s"

text \<open>
  \<open>main\<close>: \<open>opts\<close> are the options, \<open>args\<close> the positional arguments that follow them
  (\<open>optind + 1 != argc\<close> says there is not exactly one).
\<close>

definition main :: "env \<Rightarrow> cli_opt list \<Rightarrow> sockaddr_ip option list \<Rightarrow> int result" where
  "main env opts args =
     (case getopt_loop opts False False init_state of
        Died m sd \<Rightarrow> Died m sd
      | Ret (src_set, num_sock_set) s \<Rightarrow>
          if length args \<noteq> 1 then Died ''Missing destination address'' s
          else
            (case parse_addr (hd args) s of
               Died m sd \<Rightarrow> Died m sd
             | Ret None s1 \<Rightarrow> Died ''Cannot parse destination address'' s1
             | Ret (Some d) s1 \<Rightarrow>
                 let s2 = s1\<lparr>opt_dstaddr := d\<rparr>
                 in if src_set \<and> sin_family (opt_dstaddr s2) \<noteq> sin_family (opt_srcaddr s2)
                    then Died ''Source and destination address family are not the same'' s2
                    else
                      let s3 = (if \<not> num_sock_set \<and> opt_count s2 \<noteq> 0
                                     \<and> opt_count s2 < nsockets s2
                                then s2\<lparr>nsockets := opt_count s2\<rparr> else s2)
                      in run_test env s3))"

text \<open>
  The options that the \<open>getopt\<close> loop lets pass: the argument parses, a socket number
  is within the limits, a source address is of a supported family.
\<close>

fun opt_accepted :: "cli_opt \<Rightarrow> bool" where
  "opt_accepted (Opt_c v) = (v \<noteq> None)"
| "opt_accepted (Opt_n v) =
     (case v of None \<Rightarrow> False | Some n \<Rightarrow> \<not> (n < nsockets_min \<or> n > nsockets_max))"
| "opt_accepted (Opt_I a) =
     (case a of None \<Rightarrow> False | Some x \<Rightarrow> sin_family x = AF_INET \<or> sin_family x = AF_INET6)"
| "opt_accepted (Opt_Q v) = (v \<noteq> None)"
| "opt_accepted Opt_s = True"
| "opt_accepted Opt_unknown = False"

fun is_Opt_c :: "cli_opt \<Rightarrow> bool" where
  "is_Opt_c (Opt_c v) = True"
| "is_Opt_c x = False"

fun is_Opt_n :: "cli_opt \<Rightarrow> bool" where
  "is_Opt_n (Opt_n v) = True"
| "is_Opt_n x = False"

fun is_Opt_I :: "cli_opt \<Rightarrow> bool" where
  "is_Opt_I (Opt_I v) = True"
| "is_Opt_I x = False"

section \<open>Observing a run\<close>

text \<open>The state a run ends in, whether it returned or died.\<close>

fun final_state :: "'a result \<Rightarrow> state" where
  "final_state (Died m s) = s"
| "final_state (Ret v s) = s"

text \<open>The system calls made between two states of one run.\<close>

definition new_events :: "state \<Rightarrow> state \<Rightarrow> event list" where
  "new_events s s' = drop (length (trace s)) (trace s')"

fun is_sendto :: "event \<Rightarrow> bool" where
  "is_sendto (Ev_sendto f a l r) = True"
| "is_sendto ev = False"

definition sends_of :: "event list \<Rightarrow> event list" where
  "sends_of evs = filter is_sendto evs"

text \<open>\<open>n\<close> successful sends of a probe on descriptor \<open>f\<close>.\<close>

definition ok_sends :: "int \<Rightarrow> sockaddr_ip \<Rightarrow> nat \<Rightarrow> nat \<Rightarrow> event list" where
  "ok_sends f dst msglen n = replicate n (Ev_sendto f dst msglen None)"

text \<open>
  The sends of a group in which every socket completes its \<open>p\<close> sends, in group order.
\<close>

definition group_sends :: "socket list \<Rightarrow> sockaddr_ip \<Rightarrow> nat \<Rightarrow> nat \<Rightarrow> event list" where
  "group_sends socks dst msglen p = concat (map (\<lambda>sk. ok_sends (fd sk) dst msglen p) socks)"

fun is_outq :: "event \<Rightarrow> bool" where
  "is_outq (Ev_outq f r) = True"
| "is_outq ev = False"

text \<open>
  The two shapes the sends of the scheduler can have when it serves the sockets with
  indices from \<open>a\<close> up to \<open>b\<close> and returns \<open>r\<close>: every socket completes its sends and
  \<open>r\<close> is 0, or the sockets before some index \<open>k\<close> complete theirs, socket \<open>k\<close> has \<open>j\<close>
  successful sends followed by one that fails with a non-zero errno, which is \<open>r\<close>, and
  nothing follows.
\<close>

definition run_shape ::
  "socket list \<Rightarrow> sockaddr_ip \<Rightarrow> nat \<Rightarrow> nat \<Rightarrow> nat \<Rightarrow> nat \<Rightarrow> int \<Rightarrow> event list \<Rightarrow> bool" where
  "run_shape socks dst msglen p a b r snds \<longleftrightarrow>
     (r = 0 \<and> snds = group_sends (drop a (take b socks)) dst msglen p) \<or>
     (\<exists>k j. a \<le> k \<and> k < b \<and> j < p \<and> r \<noteq> 0 \<and>
        snds = group_sends (drop a (take k socks)) dst msglen p
               @ ok_sends (fd (socks ! k)) dst msglen j
               @ [Ev_sendto (fd (socks ! k)) dst msglen (Some r)])"

text \<open>The errno of the first failed send of a trace, if a send failed.\<close>

fun first_failure :: "event list \<Rightarrow> int option" where
  "first_failure [] = None"
| "first_failure (Ev_sendto f a l (Some e) # evs) = Some e"
| "first_failure (ev # evs) = first_failure evs"

text \<open>The descriptors of the RDS sockets created, in order of creation.\<close>

fun rds_fds :: "event list \<Rightarrow> int list" where
  "rds_fds [] = []"
| "rds_fds (Ev_socket PF_RDS SOCK_SEQPACKET (Inr v) # evs) =
     (if 0 \<le> v then v # rds_fds evs else rds_fds evs)"
| "rds_fds (ev # evs) = rds_fds evs"

fun is_Spun :: "out_line \<Rightarrow> bool" where
  "is_Spun (Spun c i) = True"
| "is_Spun l = False"

text \<open>
  What the steps that set the sockets up leave alone: the packet count, the TOS, the
  spin flag, the number of sockets and the output; and they send nothing.
\<close>

definition frame :: "state \<Rightarrow> state \<Rightarrow> bool" where
  "frame s s' \<longleftrightarrow>
     opt_count s' = opt_count s \<and> opt_tos s' = opt_tos s \<and> use_siocoutq s' = use_siocoutq s
     \<and> nsockets s' = nsockets s \<and> out s' = out s
     \<and> (\<exists>evs. trace s' = trace s @ evs \<and> sends_of evs = [])"

subsection \<open>Assumptions on the operating system\<close>

text \<open>POSIX: a failing call sets \<open>errno\<close> to a non-zero error number.\<close>

definition posix_sendto :: "env \<Rightarrow> bool" where
  "posix_sendto env \<longleftrightarrow> (\<forall>h f a l. sendto_sys env h f a l \<noteq> Some 0)"

text \<open>No query of the outbound queue of descriptor \<open>f\<close> ever fails.\<close>

definition outq_never_fails :: "env \<Rightarrow> int \<Rightarrow> bool" where
  "outq_never_fails env f \<longleftrightarrow> (\<forall>h. \<exists>p. outq_sys env h f = Inr p)"

text \<open>Every query of the outbound queue of \<open>f\<close> succeeds and reports a positive count.\<close>

definition outq_always_positive :: "env \<Rightarrow> int \<Rightarrow> bool" where
  "outq_always_positive env f \<longleftrightarrow> (\<forall>h. \<exists>p. 0 < p \<and> outq_sys env h f = Inr p)"

text \<open>
  Every call that creates, connects, names, binds or tags a socket succeeds, and so does
  every send.
\<close>

definition all_calls_succeed :: "env \<Rightarrow> bool" where
  "all_calls_succeed env \<longleftrightarrow>
     (\<forall>h d t. \<exists>v. 0 \<le> v \<and> socket_sys env h d t = Inr v) \<and>
     (\<forall>h f a l. connect_sys env h f a l = None) \<and>
     (\<forall>h f. \<exists>a. getsockname_sys env h f = Inr a \<and> (sin_family a = AF_INET \<or> sin_family a = AF_INET6)) \<and>
     (\<forall>h f a l. bind_sys env h f a l = None) \<and>
     (\<forall>h f q. settos_sys env h f q = None) \<and>
     (\<forall>h f a l. sendto_sys env h f a l = None)"

subsection \<open>Concrete environments\<close>

fun is_open :: "event \<Rightarrow> bool" where
  "is_open (Ev_socket d t (Inr v)) = True"
| "is_open ev = False"

fun is_close :: "event \<Rightarrow> bool" where
  "is_close (Ev_close f) = True"
| "is_close ev = False"

text \<open>
  A host on which every call succeeds: \<open>socket\<close> returns the lowest free descriptor
  (0, 1 and 2 are taken; the descriptors opened and not closed since are counted, as
  natural numbers), the local address is 127.0.0.1, the outbound queue is always
  empty, and the clock advances by 500 microseconds per system call.
\<close>

definition env_ok :: env where
  "env_ok = \<lparr>
     socket_sys = (\<lambda>h d t. Inr (int (3 + length (filter is_open h) - length (filter is_close h)))),
     connect_sys = (\<lambda>h f a l. None),
     getsockname_sys = (\<lambda>h f. Inr \<lparr>sin_family = AF_INET, sin_port = 40000, sin_addr = 2130706433\<rparr>),
     bind_sys = (\<lambda>h f a l. None),
     settos_sys = (\<lambda>h f q. None),
     sendto_sys = (\<lambda>h f a l. None),
     outq_sys = (\<lambda>h f. Inr 0),
     gettimeofday_sys = (\<lambda>h. \<lparr>tv_sec = 1700000000, tv_usec = 500 * of_nat (length h)\<rparr>)\<rparr>"

text \<open>The same host with an outbound queue that never drains.\<close>

definition env_busy :: env where
  "env_busy = env_ok\<lparr>outq_sys := (\<lambda>h f. Inr 1)\<rparr>"

text \<open>The same host, where every send on descriptor \<open>f\<close> fails with error number \<open>e\<close>.\<close>

definition env_send_fails :: "int \<Rightarrow> int \<Rightarrow> env" where
  "env_send_fails f e = env_ok\<lparr>sendto_sys := (\<lambda>h f' a l. if f' = f then Some e else None)\<rparr>"

text \<open>The address 127.0.0.1, as \<open>getaddrinfo\<close> returns it.\<close>

definition addr_localhost :: sockaddr_ip where
  "addr_localhost = \<lparr>sin_family = AF_INET, sin_port = 0, sin_addr = 2130706433\<rparr>"

text \<open>The address ::1.\<close>

definition addr_localhost6 :: sockaddr_ip where
  "addr_localhost6 = \<lparr>sin_family = AF_INET6, sin_port = 0, sin_addr = 1\<rparr>"

text \<open>A group of eight sockets with the descriptors 3 to 10.\<close>

definition group8 :: "socket list" where
  "group8 = map (\<lambda>f. socket_uninit\<lparr>fd := f\<rparr>) [3, 4, 5, 6, 7, 8, 9, 10]"

text \<open>
  The state after the scheduler served \<open>group8\<close> with two sends per socket from
  \<open>init_state\<close>, on a host where descriptor 5 fails with errno 113 (\<open>EHOSTUNREACH\<close>).
\<close>

definition state_fail5 :: state where
  "state_fail5 = init_state\<lparr>errno := 113, trace :=
     [Ev_sendto 3 addr_localhost 16 None, Ev_sendto 3 addr_localhost 16 None,
      Ev_sendto 4 addr_localhost 16 None, Ev_sendto 4 addr_localhost 16 None,
      Ev_sendto 5 addr_localhost 16 (Some 113)]\<rparr>"

text \<open>
  The state after the scheduler served \<open>group8\<close> with one send per socket from
  \<open>init_state\<close>, on a host where descriptor 4 fails with errno 111 (\<open>ECONNREFUSED\<close>).
\<close>

definition state_fail4 :: state where
  "state_fail4 = init_state\<lparr>errno := 111, trace :=
     [Ev_sendto 3 addr_localhost 16 None, Ev_sendto 4 addr_localhost 16 (Some 111)]\<rparr>"

text \<open>
  The state \<open>main\<close> hands to \<open>run_test\<close> for the command line \<open>-c 1 -n 8 127.0.0.1\<close>.
\<close>

definition state_c1_n8 :: state where
  "state_c1_n8 = init_state\<lparr>opt_count := 1, opt_dstaddr := addr_localhost\<rparr>"

section \<open>Properties of the drain-spin step\<close>

declare spin_loop.simps [simp del]
declare send_loop.simps [simp del]
declare seq_loop.simps [simp del]
declare open_loop.simps [simp del]

lemma sys_ioctl_outq_ok:
  "outq_sys env (trace s) f = Inr p \<Longrightarrow>
   sys_ioctl_outq env f s = (Inr p, s\<lparr>trace := trace s @ [Ev_outq f (Inr p)]\<rparr>)"
  by (simp add: sys_ioctl_outq_def)

lemma spin_loop_bounds:
  "outq_never_fails env f \<Longrightarrow> c < 100000 \<Longrightarrow>
     c < fst (spin_loop env f c s) \<and> fst (spin_loop env f c s) \<le> 100000"
proof (induction env f c s rule: spin_loop.induct)
  case (1 env f sp_cnt s)
  from "1.prems" obtain p where p: "outq_sys env (trace s) f = Inr p"
    unfolding outq_never_fails_def by blast
  let ?s1 = "s\<lparr>trace := trace s @ [Ev_outq f (Inr p)]\<rparr>"
  show ?case
  proof (cases "p \<noteq> 0 \<and> sp_cnt + 1 < 100000")
    case True
    with "1.IH"[OF sys_ioctl_outq_ok[OF p, symmetric] refl] "1.prems"
    have "sp_cnt + 1 < fst (spin_loop env f (sp_cnt + 1) ?s1)
        \<and> fst (spin_loop env f (sp_cnt + 1) ?s1) \<le> 100000"
      by simp
    with True p show ?thesis
      by (subst spin_loop.simps, subst (2) spin_loop.simps) (simp add: sys_ioctl_outq_ok)
  next
    case False
    with "1.prems" p show ?thesis
      by (subst spin_loop.simps, subst (2) spin_loop.simps) (auto simp: sys_ioctl_outq_ok)
  qed
qed

lemma spin_loop_ceiling:
  "outq_always_positive env f \<Longrightarrow> c < 100000 \<Longrightarrow> fst (spin_loop env f c s) = 100000"
proof (induction env f c s rule: spin_loop.induct)
  case (1 env f sp_cnt s)
  from "1.prems" obtain p where p: "outq_sys env (trace s) f = Inr p" "p \<noteq> 0"
    unfolding outq_always_positive_def by (metis less_irrefl)
  let ?s1 = "s\<lparr>trace := trace s @ [Ev_outq f (Inr p)]\<rparr>"
  show ?case
  proof (cases "sp_cnt + 1 < 100000")
    case True
    with "1.IH"[OF sys_ioctl_outq_ok[OF p(1), symmetric] refl] "1.prems" p
    have "fst (spin_loop env f (sp_cnt + 1) ?s1) = 100000"
      by simp
    with True p show ?thesis
      by (subst spin_loop.simps) (simp add: sys_ioctl_outq_ok)
  next
    case False
    with "1.prems" p show ?thesis
      by (subst spin_loop.simps) (auto simp: sys_ioctl_outq_ok)
  qed
qed

lemma spin_loop_shape:
  "spin_loop env f c s = (r, s') \<Longrightarrow>
   \<exists>evs x. s' = s\<lparr>errno := x, trace := trace s @ evs\<rparr> \<and> (\<forall>ev\<in>set evs. is_outq ev)"
proof (induction env f c s arbitrary: r s' rule: spin_loop.induct)
  case (1 env f sp_cnt s)
  show ?case
  proof (cases "outq_sys env (trace s) f")
    case (Inl e)
    with "1.prems" have "s' = s\<lparr>errno := e, trace := trace s @ [Ev_outq f (Inl e)]\<rparr>"
      by (auto simp: spin_loop.simps sys_ioctl_outq_def)
    then show ?thesis
      by (intro exI[of _ "[Ev_outq f (Inl e)]"] exI[of _ e]) simp
  next
    case (Inr p)
    let ?s1 = "s\<lparr>trace := trace s @ [Ev_outq f (Inr p)]\<rparr>"
    show ?thesis
    proof (cases "p \<noteq> 0 \<and> sp_cnt + 1 < 100000")
      case False
      with "1.prems" Inr have "s' = ?s1"
        by (auto simp: spin_loop.simps sys_ioctl_outq_ok)
      then show ?thesis
        by (intro exI[of _ "[Ev_outq f (Inr p)]"] exI[of _ "errno s"]) simp
    next
      case True
      with "1.prems" Inr have rec: "spin_loop env f (sp_cnt + 1) ?s1 = (r, s')"
        by (simp add: spin_loop.simps[of env f sp_cnt] sys_ioctl_outq_ok)
      from "1.IH"[OF sys_ioctl_outq_ok[OF Inr, symmetric] refl True rec]
      obtain evs x where "s' = ?s1\<lparr>errno := x, trace := trace ?s1 @ evs\<rparr>" "\<forall>ev\<in>set evs. is_outq ev"
        by blast
      then show ?thesis
        by (intro exI[of _ "Ev_outq f (Inr p) # evs"] exI[of _ x]) simp
    qed
  qed
qed

lemma spin_loop_queries:
  "outq_never_fails env f \<Longrightarrow> c < 100000 \<Longrightarrow>
     int (length (new_events s (snd (spin_loop env f c s)))) = fst (spin_loop env f c s) - c"
proof (induction env f c s rule: spin_loop.induct)
  case (1 env f sp_cnt s)
  from "1.prems" obtain p where p: "outq_sys env (trace s) f = Inr p"
    unfolding outq_never_fails_def by blast
  let ?s1 = "s\<lparr>trace := trace s @ [Ev_outq f (Inr p)]\<rparr>"
  show ?case
  proof (cases "p \<noteq> 0 \<and> sp_cnt + 1 < 100000")
    case True
    obtain r s' where rs: "spin_loop env f (sp_cnt + 1) ?s1 = (r, s')"
      by (cases "spin_loop env f (sp_cnt + 1) ?s1")
    from spin_loop_shape[OF rs] obtain evs x where
      s': "s' = ?s1\<lparr>errno := x, trace := trace ?s1 @ evs\<rparr>"
      by blast
    from "1.IH"[OF sys_ioctl_outq_ok[OF p, symmetric] refl] True "1.prems" rs
    have "int (length (new_events ?s1 s')) = r - (sp_cnt + 1)"
      by simp
    with s' have "int (length evs) = r - (sp_cnt + 1)"
      by (simp add: new_events_def)
    with s' have "int (length (new_events s s')) = r - sp_cnt"
      by (simp add: new_events_def)
    with True p rs show ?thesis
      by (subst spin_loop.simps, subst (2) spin_loop.simps) (simp add: sys_ioctl_outq_ok)
  next
    case False
    with "1.prems" p show ?thesis
      by (subst spin_loop.simps, subst (2) spin_loop.simps)
         (auto simp: sys_ioctl_outq_ok new_events_def)
  qed
qed

text \<open>
  C1. \<open>spin_on_one_socket\<close> is a total function: the loop ends for every behaviour of
  the operating system. On a socket whose outbound-queue query never fails, the spin
  count returned is at least 0 and less than 100001, and the loop has made exactly that
  many queries; and if moreover every query reports a positive number of pending bytes,
  the count returned is exactly 100000.
\<close>

theorem spin_count_bounded:
  assumes "outq_never_fails env f"
  shows "0 \<le> fst (spin_on_one_socket env f s) \<and> fst (spin_on_one_socket env f s) < 100001
       \<and> int (length (new_events s (snd (spin_on_one_socket env f s))))
           = fst (spin_on_one_socket env f s)
       \<and> (outq_always_positive env f \<longrightarrow> fst (spin_on_one_socket env f s) = 100000)"
  using spin_loop_bounds[OF assms, of 0 s] spin_loop_ceiling[of env f 0 s]
    spin_loop_queries[OF assms, of 0 s]
  by (simp add: spin_on_one_socket_def)

theorem spin_count_bounded_witness:
  "outq_never_fails env_busy 3 \<and> outq_always_positive env_busy 3
   \<and> fst (spin_on_one_socket env_busy 3 init_state) = 100000"
  using spin_count_bounded[of env_busy 3 init_state]
  by (simp add: outq_never_fails_def outq_always_positive_def env_busy_def env_ok_def)

lemma spin_loop_queries_on:
  "\<exists>rs. trace (snd (spin_loop env f c s))
          = trace s @ map (Ev_outq f) (outq_sys env (trace s) f # rs)"
proof (induction env f c s rule: spin_loop.induct)
  case (1 env f sp_cnt s)
  show ?case
  proof (cases "outq_sys env (trace s) f")
    case (Inl e)
    then have "trace (snd (spin_loop env f sp_cnt s)) = trace s @ [Ev_outq f (Inl e)]"
      by (simp add: spin_loop.simps sys_ioctl_outq_def)
    with Inl show ?thesis
      by (intro exI[of _ "[]"]) simp
  next
    case (Inr p)
    let ?s1 = "s\<lparr>trace := trace s @ [Ev_outq f (Inr p)]\<rparr>"
    show ?thesis
    proof (cases "p \<noteq> 0 \<and> sp_cnt + 1 < 100000")
      case False
      with Inr have "trace (snd (spin_loop env f sp_cnt s)) = trace s @ [Ev_outq f (Inr p)]"
        by (auto simp: spin_loop.simps sys_ioctl_outq_ok)
      with Inr show ?thesis
        by (intro exI[of _ "[]"]) simp
    next
      case True
      from "1.IH"[OF sys_ioctl_outq_ok[OF Inr, symmetric] refl True]
      obtain rs where rs: "trace (snd (spin_loop env f (sp_cnt + 1) ?s1))
          = trace ?s1 @ map (Ev_outq f) (outq_sys env (trace ?s1) f # rs)"
        by blast
      from True Inr have "spin_loop env f sp_cnt s = spin_loop env f (sp_cnt + 1) ?s1"
        by (subst spin_loop.simps) (simp add: sys_ioctl_outq_ok)
      with rs Inr show ?thesis
        by (intro exI[of _ "outq_sys env (trace ?s1) f # rs"]) simp
    qed
  qed
qed

text \<open>
  C10. On a socket whose outbound-queue query never fails, the spin count returned is
  at least 1, also when the very first query finds the queue empty: the loop body runs
  before the condition is tested for the first time. The calls made by the step are
  queries of the outbound queue of this socket and nothing else, the first of them is
  the query made in the state the step was entered in, and the count returned is the
  number of these queries.
\<close>

theorem spin_count_positive:
  assumes "outq_never_fails env f"
  shows "1 \<le> fst (spin_on_one_socket env f s)
       \<and> int (length (new_events s (snd (spin_on_one_socket env f s))))
           = fst (spin_on_one_socket env f s)
       \<and> (\<exists>rs. new_events s (snd (spin_on_one_socket env f s))
                 = map (Ev_outq f) (outq_sys env (trace s) f # rs))"
proof -
  from spin_loop_queries_on[of env f 0 s]
  have "\<exists>rs. new_events s (snd (spin_on_one_socket env f s))
                 = map (Ev_outq f) (outq_sys env (trace s) f # rs)"
    by (auto simp: spin_on_one_socket_def new_events_def)
  with spin_loop_bounds[OF assms, of 0 s] spin_loop_queries[OF assms, of 0 s]
  show ?thesis
    by (simp add: spin_on_one_socket_def)
qed

theorem spin_count_positive_witness:
  "outq_never_fails env_ok 3 \<and> fst (spin_on_one_socket env_ok 3 init_state) = 1
   \<and> new_events init_state (snd (spin_on_one_socket env_ok 3 init_state)) = [Ev_outq 3 (Inr 0)]"
proof -
  have nf: "outq_never_fails env_ok 3"
    by (simp add: outq_never_fails_def env_ok_def)
  have "spin_on_one_socket env_ok 3 init_state
          = (1, init_state\<lparr>trace := [Ev_outq 3 (Inr 0)]\<rparr>)"
    by (simp add: spin_on_one_socket_def spin_loop.simps sys_ioctl_outq_def env_ok_def
        init_state_def)
  then have "fst (spin_on_one_socket env_ok 3 init_state) = 1"
    "new_events init_state (snd (spin_on_one_socket env_ok 3 init_state)) = [Ev_outq 3 (Inr 0)]"
    by (simp_all add: new_events_def init_state_def)
  with nf spin_count_positive[OF nf, of init_state] show ?thesis
    by simp
qed

section \<open>Properties of the send loops\<close>

lemma ok_sends_0 [simp]: "ok_sends f dst msglen 0 = []"
  by (simp add: ok_sends_def)

lemma ok_sends_Suc: "ok_sends f dst msglen (Suc n) = Ev_sendto f dst msglen None # ok_sends f dst msglen n"
  by (simp add: ok_sends_def)

lemma sys_sendto_None:
  "sendto_sys env (trace s) f dst msglen = None \<Longrightarrow>
   sys_sendto env f dst msglen s = (0, s\<lparr>trace := trace s @ [Ev_sendto f dst msglen None]\<rparr>)"
  by (simp add: sys_sendto_def)

lemma sys_sendto_Some:
  "sendto_sys env (trace s) f dst msglen = Some e \<Longrightarrow>
   sys_sendto env f dst msglen s =
     (- 1, s\<lparr>errno := e, trace := trace s @ [Ev_sendto f dst msglen (Some e)]\<rparr>)"
  by (simp add: sys_sendto_def)

lemma send_loop_shape:
  "send_loop env f dst msglen per_sock idx ret s = (r, s') \<Longrightarrow>
   \<exists>evs x. s' = s\<lparr>errno := x, trace := trace s @ evs\<rparr> \<and>
     ((r = ret \<and> evs = ok_sends f dst msglen (nat (per_sock - idx))) \<or>
      (\<exists>j e h. j < nat (per_sock - idx) \<and> sendto_sys env h f dst msglen = Some e \<and>
         evs = ok_sends f dst msglen j @ [Ev_sendto f dst msglen (Some e)] \<and> r = e))"
proof (induction env f dst msglen per_sock idx ret s arbitrary: r s' rule: send_loop.induct)
  case (1 env f dst msglen per_sock idx ret s)
  show ?case
  proof (cases "idx < per_sock")
    case False
    with "1.prems" have "r = ret" "s' = s"
      by (auto simp add: send_loop.simps)
    with False show ?thesis
      by (intro exI[of _ "[]"] exI[of _ "errno s"]) simp
  next
    case True
    show ?thesis
    proof (cases "sendto_sys env (trace s) f dst msglen")
      case (Some e)
      let ?s1 = "s\<lparr>errno := e, trace := trace s @ [Ev_sendto f dst msglen (Some e)]\<rparr>"
      from "1.prems" True Some have "r = e" "s' = ?s1"
        by (auto simp add: send_loop.simps sys_sendto_Some)
      with True Some show ?thesis
        by (intro exI[of _ "[Ev_sendto f dst msglen (Some e)]"] exI[of _ e])
           (auto intro!: exI[of _ "0::nat"])
    next
      case None
      let ?ev = "Ev_sendto f dst msglen None"
      let ?s1 = "s\<lparr>trace := trace s @ [?ev]\<rparr>"
      from "1.prems" True None
      have rec: "send_loop env f dst msglen per_sock (idx + 1) ret ?s1 = (r, s')"
        by (simp add: send_loop.simps[of env f dst msglen per_sock idx] sys_sendto_None)
      from "1.IH"[OF True sys_sendto_None[OF None, symmetric] _ rec]
      obtain evs x where s': "s' = ?s1\<lparr>errno := x, trace := trace ?s1 @ evs\<rparr>"
        and alt: "(r = ret \<and> evs = ok_sends f dst msglen (nat (per_sock - (idx + 1)))) \<or>
          (\<exists>j e h. j < nat (per_sock - (idx + 1)) \<and> sendto_sys env h f dst msglen = Some e \<and>
             evs = ok_sends f dst msglen j @ [Ev_sendto f dst msglen (Some e)] \<and> r = e)"
        by auto
      from True have n: "nat (per_sock - idx) = Suc (nat (per_sock - (idx + 1)))"
        by simp
      from s' have s'2: "s' = s\<lparr>errno := x, trace := trace s @ (?ev # evs)\<rparr>"
        by simp
      from alt show ?thesis
      proof
        assume "r = ret \<and> evs = ok_sends f dst msglen (nat (per_sock - (idx + 1)))"
        with s'2 n show ?thesis
          by (intro exI[of _ "?ev # evs"] exI[of _ x]) (simp add: ok_sends_Suc)
      next
        assume "\<exists>j e h. j < nat (per_sock - (idx + 1)) \<and> sendto_sys env h f dst msglen = Some e \<and>
             evs = ok_sends f dst msglen j @ [Ev_sendto f dst msglen (Some e)] \<and> r = e"
        then obtain j e h where j: "j < nat (per_sock - (idx + 1))"
          and e: "sendto_sys env h f dst msglen = Some e"
          and evs: "evs = ok_sends f dst msglen j @ [Ev_sendto f dst msglen (Some e)]" and r: "r = e"
          by blast
        from j n have "Suc j < nat (per_sock - idx)" by simp
        with e evs r s'2 show ?thesis
          by (intro exI[of _ "?ev # evs"] exI[of _ x])
             (auto simp: ok_sends_Suc intro!: exI[of _ "Suc j"])
      qed
    qed
  qed
qed


lemma sends_of_append [simp]: "sends_of (xs @ ys) = sends_of xs @ sends_of ys"
  by (simp add: sends_of_def)

lemma sends_of_Nil [simp]: "sends_of [] = []"
  by (simp add: sends_of_def)

lemma sends_of_ok_sends [simp]: "sends_of (ok_sends f dst msglen n) = ok_sends f dst msglen n"
  by (simp add: sends_of_def ok_sends_def)

lemma sends_of_sendto [simp]: "sends_of (Ev_sendto f a l r # evs) = Ev_sendto f a l r # sends_of evs"
  by (simp add: sends_of_def)

lemma sends_of_outq: "\<forall>ev\<in>set evs. is_outq ev \<Longrightarrow> sends_of evs = []"
proof (induction evs)
  case Nil
  then show ?case by simp
next
  case (Cons ev evs)
  then show ?case by (cases ev) (simp_all add: sends_of_def)
qed

lemma group_sends_Nil [simp]: "group_sends [] dst msglen p = []"
  by (simp add: group_sends_def)

lemma group_sends_Cons:
  "group_sends (sk # socks) dst msglen p = ok_sends (fd sk) dst msglen p @ group_sends socks dst msglen p"
  by (simp add: group_sends_def)

lemma drop_take_step:
  "a < b \<Longrightarrow> b \<le> length xs \<Longrightarrow> drop a (take b xs) = xs ! a # drop (Suc a) (take b xs)"
  using Cons_nth_drop_Suc[of a "take b xs"] by simp

lemma run_shape_done: "b \<le> a \<Longrightarrow> run_shape socks dst msglen p a b 0 []"
  by (simp add: run_shape_def)

lemma run_shape_fail:
  "a < b \<Longrightarrow> j < p \<Longrightarrow> e \<noteq> 0 \<Longrightarrow>
   run_shape socks dst msglen p a b e
     (ok_sends (fd (socks ! a)) dst msglen j @ [Ev_sendto (fd (socks ! a)) dst msglen (Some e)])"
  unfolding run_shape_def by (intro disjI2 exI[of _ a] exI[of _ j]) simp

lemma run_shape_step:
  assumes "a < b" "b \<le> length socks" "run_shape socks dst msglen p (Suc a) b r snds"
  shows "run_shape socks dst msglen p a b r (ok_sends (fd (socks ! a)) dst msglen p @ snds)"
proof -
  from assms(3) consider
    (ok) "r = 0" "snds = group_sends (drop (Suc a) (take b socks)) dst msglen p"
  | (bad) k j where "Suc a \<le> k" "k < b" "j < p" "r \<noteq> 0"
      "snds = group_sends (drop (Suc a) (take k socks)) dst msglen p
               @ ok_sends (fd (socks ! k)) dst msglen j
               @ [Ev_sendto (fd (socks ! k)) dst msglen (Some r)]"
    unfolding run_shape_def by blast
  then show ?thesis
  proof cases
    case ok
    with assms(1,2) show ?thesis
      by (simp add: run_shape_def drop_take_step group_sends_Cons)
  next
    case bad
    from bad(1,2) assms(2) have "drop a (take k socks) = socks ! a # drop (Suc a) (take k socks)"
      by (intro drop_take_step) simp_all
    with bad show ?thesis
      unfolding run_shape_def
      by (intro disjI2 exI[of _ k] exI[of _ j]) (simp add: group_sends_Cons)
  qed
qed


lemma seq_loop_shape:
  assumes posix: "posix_sendto env" and len: "n_socks \<le> int (length nsocks)"
  shows "0 \<le> idx \<Longrightarrow> seq_loop env nsocks dst n_socks per_sock msglen idx 0 s = (r, s') \<Longrightarrow>
     \<exists>evs x ol. s' = s\<lparr>errno := x, trace := trace s @ evs, out := out s @ ol\<rparr> \<and>
        (\<forall>ev\<in>set evs. is_sendto ev \<or> is_outq ev) \<and>
        run_shape nsocks dst msglen (nat per_sock) (nat idx) (nat n_socks) r (sends_of evs) \<and>
        (r \<noteq> 0 \<longrightarrow> (\<exists>h f. sendto_sys env h f dst msglen = Some r))"
proof (induction "nat (n_socks - idx)" arbitrary: idx s)
  case 0
  then have "n_socks \<le> idx" by simp
  with "0.prems" have "r = 0" "s' = s"
    by (auto simp: seq_loop.simps)
  moreover from \<open>n_socks \<le> idx\<close> have "nat n_socks \<le> nat idx" by simp
  ultimately show ?case
    by (intro exI[of _ "[]"] exI[of _ "errno s"]) (simp add: run_shape_done)
next
  case (Suc m)
  let ?f = "fd (nsocks ! nat idx)"
  let ?p = "nat per_sock"
  from Suc.hyps(2) have lt: "idx < n_socks" by simp
  with Suc.prems(1) len have lt': "nat idx < nat n_socks" "nat n_socks \<le> length nsocks"
    by simp_all
  obtain ret1 s1 where so: "send_on_one_socket env ?f dst msglen per_sock s = (ret1, s1)"
    by (cases "send_on_one_socket env ?f dst msglen per_sock s")
  from send_loop_shape[OF so[unfolded send_on_one_socket_def]]
  obtain evs1 x1 where s1: "s1 = s\<lparr>errno := x1, trace := trace s @ evs1\<rparr>"
    and alt: "(ret1 = 0 \<and> evs1 = ok_sends ?f dst msglen ?p) \<or>
      (\<exists>j e h. j < ?p \<and> sendto_sys env h ?f dst msglen = Some e \<and>
         evs1 = ok_sends ?f dst msglen j @ [Ev_sendto ?f dst msglen (Some e)] \<and> ret1 = e)"
    by auto
  from alt show ?case
  proof
    assume "\<exists>j e h. j < ?p \<and> sendto_sys env h ?f dst msglen = Some e \<and>
         evs1 = ok_sends ?f dst msglen j @ [Ev_sendto ?f dst msglen (Some e)] \<and> ret1 = e"
    then obtain j e h where j: "j < ?p" and e: "sendto_sys env h ?f dst msglen = Some e"
      and evs1: "evs1 = ok_sends ?f dst msglen j @ [Ev_sendto ?f dst msglen (Some e)]"
      and ret1: "ret1 = e"
      by blast
    from posix e have ne: "e \<noteq> 0"
      unfolding posix_sendto_def by metis
    from Suc.prems(2) lt so ret1 ne have "r = e" "s' = s1"
      by (auto simp: seq_loop.simps[of env nsocks dst n_socks per_sock msglen idx])
    moreover have "\<forall>ev\<in>set evs1. is_sendto ev \<or> is_outq ev"
      by (auto simp: evs1 ok_sends_def)
    moreover from e \<open>r = e\<close> have "\<exists>h f. sendto_sys env h f dst msglen = Some r"
      by blast
    ultimately show ?thesis
      using s1 run_shape_fail[OF lt'(1) j ne, of nsocks dst msglen] evs1
      by (intro exI[of _ evs1] exI[of _ x1] exI[of _ "[]"]) simp
  next
    assume ok: "ret1 = 0 \<and> evs1 = ok_sends ?f dst msglen ?p"
    have m: "m = nat (n_socks - (idx + 1))" using Suc.hyps(2) by simp
    have idx1: "0 \<le> idx + 1" "nat (idx + 1) = Suc (nat idx)" using Suc.prems(1) by simp_all
    have evs1_all: "\<forall>ev\<in>set evs1. is_sendto ev \<or> is_outq ev"
      using ok by (auto simp: ok_sends_def)
    show ?thesis
    proof (cases "use_siocoutq s")
      case False
      with Suc.prems(2) lt so ok s1
      have rec: "seq_loop env nsocks dst n_socks per_sock msglen (idx + 1) 0 s1 = (r, s')"
        by (simp add: seq_loop.simps[of env nsocks dst n_socks per_sock msglen idx])
      from Suc.hyps(1)[OF m idx1(1) rec]
      obtain evs3 x3 o3 where s': "s' = s1\<lparr>errno := x3, trace := trace s1 @ evs3, out := out s1 @ o3\<rparr>"
        and all3: "\<forall>ev\<in>set evs3. is_sendto ev \<or> is_outq ev"
        and sh: "run_shape nsocks dst msglen ?p (nat (idx + 1)) (nat n_socks) r (sends_of evs3)"
        and fl: "r \<noteq> 0 \<longrightarrow> (\<exists>h f. sendto_sys env h f dst msglen = Some r)"
        by blast
      from run_shape_step[OF lt' sh[unfolded idx1(2)]] ok
      have "run_shape nsocks dst msglen ?p (nat idx) (nat n_socks) r (sends_of (evs1 @ evs3))"
        by simp
      with s' s1 all3 evs1_all fl show ?thesis
        by (intro exI[of _ "evs1 @ evs3"] exI[of _ x3] exI[of _ o3]) auto
    next
      case True
      obtain c s2 where sp: "spin_on_one_socket env ?f s1 = (c, s2)"
        by (cases "spin_on_one_socket env ?f s1")
      from spin_loop_shape[OF sp[unfolded spin_on_one_socket_def]]
      obtain evs2 x2 where s2: "s2 = s1\<lparr>errno := x2, trace := trace s1 @ evs2\<rparr>"
        and all2: "\<forall>ev\<in>set evs2. is_outq ev"
        by blast
      let ?s3 = "s2\<lparr>out := out s2 @ [Spun c idx]\<rparr>"
      from Suc.prems(2) lt so ok s1 True sp
      have rec: "seq_loop env nsocks dst n_socks per_sock msglen (idx + 1) 0 ?s3 = (r, s')"
        by (simp add: seq_loop.simps[of env nsocks dst n_socks per_sock msglen idx])
      from Suc.hyps(1)[OF m idx1(1) rec]
      obtain evs3 x3 o3 where s': "s' = ?s3\<lparr>errno := x3, trace := trace ?s3 @ evs3, out := out ?s3 @ o3\<rparr>"
        and all3: "\<forall>ev\<in>set evs3. is_sendto ev \<or> is_outq ev"
        and sh: "run_shape nsocks dst msglen ?p (nat (idx + 1)) (nat n_socks) r (sends_of evs3)"
        and fl: "r \<noteq> 0 \<longrightarrow> (\<exists>h f. sendto_sys env h f dst msglen = Some r)"
        by blast
      from run_shape_step[OF lt' sh[unfolded idx1(2)]] ok sends_of_outq[OF all2]
      have "run_shape nsocks dst msglen ?p (nat idx) (nat n_socks) r (sends_of (evs1 @ evs2 @ evs3))"
        by simp
      with s' s1 s2 all3 all2 evs1_all fl show ?thesis
        by (intro exI[of _ "evs1 @ evs2 @ evs3"] exI[of _ x3] exI[of _ "Spun c idx # o3"]) auto
    qed
  qed
qed

lemma new_events_upd [simp]:
  "new_events s (s\<lparr>errno := x, trace := trace s @ evs, out := ol\<rparr>) = evs"
  by (simp add: new_events_def)

lemma first_failure_append_ok:
  "first_failure (ok_sends f dst msglen n @ evs) = first_failure evs"
  by (induction n) (simp_all add: ok_sends_Suc)

lemma first_failure_group:
  "first_failure (group_sends socks dst msglen p @ evs) = first_failure evs"
  by (induction socks) (simp_all add: group_sends_Cons first_failure_append_ok)

lemma first_failure_sends_of: "first_failure (sends_of evs) = first_failure evs"
  by (induction evs rule: first_failure.induct) (simp_all add: sends_of_def)

lemma run_shape_first_failure:
  "run_shape socks dst msglen p a b r snds \<Longrightarrow>
     r = (case first_failure snds of None \<Rightarrow> 0 | Some e \<Rightarrow> e)"
  unfolding run_shape_def
  using first_failure_group[of _ dst msglen p "[]"]
  by (auto simp: first_failure_group first_failure_append_ok)


lemma group_sends_all_ok: "first_failure (group_sends socks dst msglen p) = None"
  using first_failure_group[of socks dst msglen p "[]"] by simp

text \<open>
  C2. Whenever a send fails while the scheduler serves a group (the first failure being
  one with errno \<open>e\<close>), there is an index \<open>k\<close> in the group such that the sends issued
  during the run are exactly: all \<open>per_sock\<close> sends, successful, on each of the sockets
  before index \<open>k\<close>, in group order; then fewer than \<open>per_sock\<close> successful sends on
  socket \<open>k\<close>; then the failing send on socket \<open>k\<close>. Nothing is sent after it, so no
  send is issued on a socket after index \<open>k\<close>, and the scheduler returns \<open>e\<close>.
\<close>

theorem first_failure_stops_run:
  assumes "posix_sendto env"
    and "n_socks \<le> int (length nsocks)"
    and "send_on_n_sockets_seq env nsocks dst n_socks per_sock msglen s = (r, s')"
    and "first_failure (new_events s s') = Some e"
  shows "\<exists>k j. k < nat n_socks \<and> j < nat per_sock \<and>
           sends_of (new_events s s') =
             group_sends (take k nsocks) dst msglen (nat per_sock)
             @ ok_sends (fd (nsocks ! k)) dst msglen j
             @ [Ev_sendto (fd (nsocks ! k)) dst msglen (Some e)]
           \<and> r = e"
proof -
  from seq_loop_shape[OF assms(1,2) _ assms(3)[unfolded send_on_n_sockets_seq_def]]
  obtain evs x ol where s': "s' = s\<lparr>errno := x, trace := trace s @ evs, out := out s @ ol\<rparr>"
    and sh: "run_shape nsocks dst msglen (nat per_sock) (nat 0) (nat n_socks) r (sends_of evs)"
    by auto
  from s' have ne: "new_events s s' = evs" by simp
  from assms(4) ne have ff: "first_failure (sends_of evs) = Some e"
    by (simp add: first_failure_sends_of)
  with run_shape_first_failure[OF sh] have r: "r = e" by simp
  from sh ff obtain k j where "k < nat n_socks" "j < nat per_sock"
    "sends_of evs = group_sends (take k nsocks) dst msglen (nat per_sock)
               @ ok_sends (fd (nsocks ! k)) dst msglen j
               @ [Ev_sendto (fd (nsocks ! k)) dst msglen (Some r)]"
    unfolding run_shape_def by (auto simp: group_sends_all_ok)
  with r ne show ?thesis by auto
qed

lemma run_fail5:
  "send_on_n_sockets_seq (env_send_fails 5 113) group8 addr_localhost 8 2 16 init_state = (113, state_fail5)"
  by code_simp

theorem first_failure_stops_run_witness:
  "posix_sendto (env_send_fails 5 113) \<and> 8 \<le> int (length group8)
   \<and> send_on_n_sockets_seq (env_send_fails 5 113) group8 addr_localhost 8 2 16 init_state
       = (113, state_fail5)
   \<and> first_failure (new_events init_state state_fail5) = Some 113
   \<and> (\<exists>k j. k < nat 8 \<and> j < nat 2 \<and>
           sends_of (new_events init_state state_fail5) =
             group_sends (take k group8) addr_localhost 16 (nat 2)
             @ ok_sends (fd (group8 ! k)) addr_localhost 16 j
             @ [Ev_sendto (fd (group8 ! k)) addr_localhost 16 (Some 113)])"
proof -
  have h1: "posix_sendto (env_send_fails 5 113)"
    by (simp add: posix_sendto_def env_send_fails_def env_ok_def)
  have h2: "8 \<le> int (length group8)"
    by (simp add: group8_def)
  have h4: "first_failure (new_events init_state state_fail5) = Some 113"
    by (simp add: new_events_def init_state_def state_fail5_def)
  from first_failure_stops_run[OF h1 h2 run_fail5 h4] h1 h2 run_fail5 h4 show ?thesis
    by blast
qed

text \<open>
  C5, as the code has it. The value the scheduler returns is 0 when no send failed, and
  then every socket of the group completed its \<open>per_sock\<close> sends; otherwise it is the
  errno of the first send that failed.
\<close>

theorem scheduler_returns_errno:
  assumes "posix_sendto env"
    and "n_socks \<le> int (length nsocks)"
    and "send_on_n_sockets_seq env nsocks dst n_socks per_sock msglen s = (r, s')"
  shows "r = (case first_failure (new_events s s') of None \<Rightarrow> 0 | Some e \<Rightarrow> e)
       \<and> (first_failure (new_events s s') = None \<longrightarrow>
            sends_of (new_events s s') = group_sends (take (nat n_socks) nsocks) dst msglen (nat per_sock))"
proof -
  from seq_loop_shape[OF assms(1,2) _ assms(3)[unfolded send_on_n_sockets_seq_def]]
  obtain evs x ol where s': "s' = s\<lparr>errno := x, trace := trace s @ evs, out := out s @ ol\<rparr>"
    and sh: "run_shape nsocks dst msglen (nat per_sock) (nat 0) (nat n_socks) r (sends_of evs)"
    by auto
  from s' have ne: "new_events s s' = evs" by simp
  from run_shape_first_failure[OF sh]
  have r: "r = (case first_failure evs of None \<Rightarrow> 0 | Some e \<Rightarrow> e)"
    by (simp add: first_failure_sends_of)
  have "first_failure evs = None \<longrightarrow>
      sends_of evs = group_sends (take (nat n_socks) nsocks) dst msglen (nat per_sock)"
    using sh first_failure_sends_of[of evs] unfolding run_shape_def
    by (auto simp: first_failure_group first_failure_append_ok)
  with r ne show ?thesis by simp
qed

lemma run_fail4:
  "send_on_n_sockets_seq (env_send_fails 4 111) group8 addr_localhost 8 1 16 init_state
     = (111, state_fail4)"
  by code_simp

theorem scheduler_returns_errno_witness:
  "posix_sendto (env_send_fails 4 111) \<and> 8 \<le> int (length group8)
   \<and> send_on_n_sockets_seq (env_send_fails 4 111) group8 addr_localhost 8 1 16 init_state
       = (111, state_fail4)
   \<and> first_failure (new_events init_state state_fail4) = Some 111"
proof -
  have h1: "posix_sendto (env_send_fails 4 111)"
    by (simp add: posix_sendto_def env_send_fails_def env_ok_def)
  have h2: "8 \<le> int (length group8)"
    by (simp add: group8_def)
  from scheduler_returns_errno[OF h1 h2 run_fail4] h1 h2 run_fail4 show ?thesis
    by (auto split: option.splits)
qed

text \<open>
  C5 as stated fails: on a host where every send succeeds, the scheduler sends one
  packet on each of eight sockets and returns 0, not the count 8.
\<close>

theorem scheduler_returns_count_counterexample:
  "fst (send_on_n_sockets_seq env_ok group8 addr_localhost 8 1 16 init_state) = 0
   \<and> length (sends_of (trace (snd
        (send_on_n_sockets_seq env_ok group8 addr_localhost 8 1 16 init_state)))) = 8
   \<and> fst (send_on_n_sockets_seq env_ok group8 addr_localhost 8 1 16 init_state) \<noteq> 8 * 1"
  by code_simp


section \<open>Properties of the command line\<close>

lemma parse_addr_state: "parse_addr a s = Ret v s' \<Longrightarrow> s' = s"
  by (auto simp: parse_addr_def split: option.splits if_splits)

lemma parse_addr_died: "parse_addr a s = Died m sd \<Longrightarrow> sd = s"
  by (auto simp: parse_addr_def split: option.splits if_splits)

lemma parse_addr_ok:
  "sin_family x = AF_INET \<or> sin_family x = AF_INET6 \<Longrightarrow> parse_addr (Some x) s = Ret (Some x) s"
  by (auto simp: parse_addr_def)

lemma getopt_loop_trace:
  "trace (final_state (getopt_loop opts a b s)) = trace s"
proof (induction opts a b s rule: getopt_loop.induct)
  case (4 x opts a b s)
  then show ?case
    by (cases "parse_addr x s") (auto split: option.splits dest: parse_addr_state parse_addr_died)
qed (auto split: option.splits)

lemma getopt_loop_accepted:
  "list_all opt_accepted opts \<Longrightarrow> \<exists>a' b' s'. getopt_loop opts a b s = Ret (a', b') s'"
proof (induction opts a b s rule: getopt_loop.induct)
  case (4 x opts a b s)
  then show ?case
    by (cases x) (auto simp: parse_addr_ok)
qed (auto split: option.splits)

lemma getopt_loop_keeps_src:
  "getopt_loop opts a b s = Ret (a', b') s' \<Longrightarrow> \<not> list_ex is_Opt_I opts \<Longrightarrow>
     a' = a \<and> opt_srcaddr s' = opt_srcaddr s"
  by (induction opts a b s rule: getopt_loop.induct) (auto split: option.splits if_splits)

lemma getopt_loop_keeps_count:
  "getopt_loop opts a b s = Ret (a', b') s' \<Longrightarrow> \<not> list_ex is_Opt_c opts \<Longrightarrow>
     opt_count s' = opt_count s"
proof (induction opts a b s rule: getopt_loop.induct)
  case (4 x opts a b s)
  then show ?case
    by (cases "parse_addr x s") (auto split: option.splits dest: parse_addr_state)
qed (auto split: option.splits if_splits)

lemma getopt_loop_keeps_nsockets:
  "getopt_loop opts a b s = Ret (a', b') s' \<Longrightarrow> \<not> list_ex is_Opt_n opts \<Longrightarrow>
     b' = b \<and> nsockets s' = nsockets s"
proof (induction opts a b s rule: getopt_loop.induct)
  case (4 x opts a b s)
  then show ?case
    by (cases "parse_addr x s") (auto split: option.splits dest: parse_addr_state)
qed (auto split: option.splits if_splits)

lemma getopt_loop_append:
  "getopt_loop (pre @ post) a b s =
     (case getopt_loop pre a b s of
        Died m sd \<Rightarrow> Died m sd
      | Ret (a1, b1) s1 \<Rightarrow> getopt_loop post a1 b1 s1)"
proof (induction pre a b s rule: getopt_loop.induct)
  case (4 x opts a b s)
  then show ?case
    by (cases "parse_addr x s") (auto split: option.splits)
qed (auto split: option.splits)

lemma getopt_loop_last_src:
  assumes "getopt_loop (pre @ Opt_I (Some src) # post) a b s = Ret (a', b') s'"
    and "\<not> list_ex is_Opt_I post"
  shows "a' = True \<and> opt_srcaddr s' = src"
proof -
  from assms(1) obtain a1 b1 s1 where pre: "getopt_loop pre a b s = Ret (a1, b1) s1"
    and rest: "getopt_loop (Opt_I (Some src) # post) a1 b1 s1 = Ret (a', b') s'"
    by (auto simp: getopt_loop_append split: result.splits)
  from rest have "getopt_loop post True b1 (s1\<lparr>opt_srcaddr := src\<rparr>) = Ret (a', b') s'"
    by (auto simp: parse_addr_def split: if_splits)
  from getopt_loop_keeps_src[OF this assms(2)] show ?thesis by simp
qed

text \<open>
  C8. On every command line whose options are accepted and whose last \<open>-I\<close> option
  supplies a source address of a family different from that of the destination (IPv4
  against IPv6 or IPv6 against IPv4), \<open>main\<close> dies with the family-mismatch message,
  and at that moment the trace of system calls is empty: no socket was created.
\<close>

theorem family_mismatch_rejected:
  assumes "list_all opt_accepted (pre @ Opt_I (Some src) # post)"
    and "\<not> list_ex is_Opt_I post"
    and "sin_family d = AF_INET \<or> sin_family d = AF_INET6"
    and "sin_family src \<noteq> sin_family d"
  shows "\<exists>sd. main env (pre @ Opt_I (Some src) # post) [Some d]
                = Died ''Source and destination address family are not the same'' sd
              \<and> trace sd = []"
proof -
  let ?opts = "pre @ Opt_I (Some src) # post"
  from getopt_loop_accepted[OF assms(1)]
  obtain a' b' s' where g: "getopt_loop ?opts False False init_state = Ret (a', b') s'"
    by blast
  from getopt_loop_last_src[OF g assms(2)] have src: "a' = True" "opt_srcaddr s' = src"
    by simp_all
  from getopt_loop_trace[of ?opts False False init_state] g have tr: "trace s' = []"
    by (simp add: init_state_def)
  from g src assms(3,4) tr show ?thesis
    by (auto simp: main_def parse_addr_ok)
qed

theorem family_mismatch_rejected_witness:
  "list_all opt_accepted ([] @ Opt_I (Some addr_localhost) # [])
   \<and> \<not> list_ex is_Opt_I []
   \<and> (sin_family addr_localhost6 = AF_INET \<or> sin_family addr_localhost6 = AF_INET6)
   \<and> sin_family addr_localhost \<noteq> sin_family addr_localhost6
   \<and> (\<exists>sd. main env_ok ([] @ Opt_I (Some addr_localhost) # []) [Some addr_localhost6]
                = Died ''Source and destination address family are not the same'' sd
              \<and> trace sd = [])"
proof -
  have h1: "list_all opt_accepted ([] @ Opt_I (Some addr_localhost) # [])"
    by (simp add: addr_localhost_def)
  have h2: "\<not> list_ex is_Opt_I []" by simp
  have h3: "sin_family addr_localhost6 = AF_INET \<or> sin_family addr_localhost6 = AF_INET6"
    by (simp add: addr_localhost6_def)
  have h4: "sin_family addr_localhost \<noteq> sin_family addr_localhost6"
    by (simp add: addr_localhost_def addr_localhost6_def)
  from family_mismatch_rejected[OF h1 h2 h3 h4, of env_ok] h1 h2 h3 h4 show ?thesis
    by blast
qed

section \<open>Properties of the run\<close>

lemma frame_refl [simp]: "frame s s"
  by (simp add: frame_def)

lemma frame_trans: "frame s s1 \<Longrightarrow> frame s1 s2 \<Longrightarrow> frame s s2"
  by (auto simp: frame_def)

lemma frame_sys_socket: "frame s (snd (sys_socket env d t s))"
  by (auto simp: frame_def sys_socket_def sends_of_def split: sum.splits)

lemma frame_sys_connect: "frame s (snd (sys_connect env f a l s))"
  by (auto simp: frame_def sys_connect_def sends_of_def split: option.splits)

lemma frame_sys_getsockname: "frame s (snd (sys_getsockname env f s))"
  by (auto simp: frame_def sys_getsockname_def sends_of_def split: sum.splits)

lemma frame_sys_close: "frame s (sys_close f s)"
  by (auto simp: frame_def sys_close_def sends_of_def)

lemma frame_sys_bind: "frame s (snd (sys_bind env f a l s))"
  by (auto simp: frame_def sys_bind_def sends_of_def split: option.splits)

lemma frame_sys_ioctl_settos: "frame s (snd (sys_ioctl_settos env f s))"
  by (auto simp: frame_def sys_ioctl_settos_def sends_of_def split: option.splits)

lemma frame_sys_gettimeofday: "frame s (snd (sys_gettimeofday env s))"
  by (auto simp: frame_def sys_gettimeofday_def sends_of_def Let_def)

lemma frame_dst [simp]: "frame s (s'\<lparr>opt_dstaddr := a\<rparr>) = frame s s'"
  by (simp add: frame_def)

lemma frame_src [simp]: "frame s (s'\<lparr>opt_srcaddr := a\<rparr>) = frame s s'"
  by (simp add: frame_def)

lemma frame_rds_guess_src: "frame s (final_state (rds_guess_src env s))"
proof -
  obtain ufd s1 where a: "sys_socket env (PF_FAMILY (sin_family (opt_dstaddr s))) SOCK_DGRAM s = (ufd, s1)"
    by (cases "sys_socket env (PF_FAMILY (sin_family (opt_dstaddr s))) SOCK_DGRAM s")
  from frame_sys_socket[of s env "PF_FAMILY (sin_family (opt_dstaddr s))" SOCK_DGRAM] a
  have f1: "frame s s1" by simp
  let ?alen = "if sin_family (opt_dstaddr s1) = AF_INET then sizeof_sockaddr_in else sizeof_sockaddr_in6"
  let ?s2 = "s1\<lparr>opt_dstaddr := (opt_dstaddr s1)\<lparr>sin_port := htons 1\<rparr>\<rparr>"
  obtain rc s3 where b: "sys_connect env ufd (opt_dstaddr ?s2) ?alen ?s2 = (rc, s3)"
    by (cases "sys_connect env ufd (opt_dstaddr ?s2) ?alen ?s2")
  from frame_sys_connect[of ?s2 env ufd "opt_dstaddr ?s2" ?alen] b
  have "frame ?s2 s3" by simp
  with f1 have f3: "frame s s3" by (auto simp: frame_def)
  let ?s4 = "s3\<lparr>opt_dstaddr := (opt_dstaddr s3)\<lparr>sin_port := 0\<rparr>\<rparr>"
  obtain rg s5 where c: "sys_getsockname env ufd ?s4 = (rg, s5)"
    by (cases "sys_getsockname env ufd ?s4")
  from frame_sys_getsockname[of ?s4 env ufd] c
  have "frame ?s4 s5" by simp
  with f3 have f5: "frame s s5" by (auto simp: frame_def)
  from frame_trans[OF f5 frame_sys_close[of s5 ufd]] have f6: "frame s (sys_close ufd s5)" .
  from a b c f1 f3 f5 f6 show ?thesis
    by (simp add: rds_guess_src_def Let_def)
qed

lemma frame_rds_socket: "frame s (final_state (rds_socket env s))"
proof -
  obtain f s1 where a: "sys_socket env PF_RDS SOCK_SEQPACKET s = (f, s1)"
    by (cases "sys_socket env PF_RDS SOCK_SEQPACKET s")
  from frame_sys_socket[of s env PF_RDS SOCK_SEQPACKET] a
  have f1: "frame s s1" by simp
  let ?g = "if sin_family (opt_srcaddr s1) = AF_UNSPEC then rds_guess_src env s1 else Ret () s1"
  have "frame s1 (final_state ?g)"
    by (simp add: frame_rds_guess_src)
  with f1 have fg: "frame s (final_state ?g)" by (rule frame_trans)
  show ?thesis
  proof (cases ?g)
    case (Died m sd)
    with a fg f1 show ?thesis by (simp add: rds_socket_def)
  next
    case (Ret u s2)
    with fg have f2: "frame s s2" by simp
    let ?alen = "if sin_family (opt_srcaddr s2) = AF_INET then sizeof_sockaddr_in else sizeof_sockaddr_in6"
    let ?s3 = "s2\<lparr>opt_srcaddr := (opt_srcaddr s2)\<lparr>sin_port := 0\<rparr>\<rparr>"
    obtain rb s4 where b: "sys_bind env f (opt_srcaddr ?s3) ?alen ?s3 = (rb, s4)"
      by (cases "sys_bind env f (opt_srcaddr ?s3) ?alen ?s3")
    from frame_sys_bind[of ?s3 env f "opt_srcaddr ?s3" ?alen] b
    have "frame ?s3 s4" by simp
    with f2 have f4: "frame s s4" by (auto simp: frame_def)
    obtain rt s5 where c: "sys_ioctl_settos env f s4 = (rt, s5)"
      by (cases "sys_ioctl_settos env f s4")
    from frame_sys_ioctl_settos[of s4 env f] c have "frame s4 s5" by simp
    with f4 have f5: "frame s s5" by (rule frame_trans)
    from a Ret b c f1 f2 f4 f5 show ?thesis
      by (simp add: rds_socket_def Let_def)
  qed
qed

lemma frame_open_loop: "frame s (final_state (open_loop env n i socks s))"
proof (induction env n i socks s rule: open_loop.induct)
  case (1 env n i socks s)
  show ?case
  proof (cases "i < uint n")
    case False
    then show ?thesis by (simp add: open_loop.simps)
  next
    case True
    show ?thesis
    proof (cases "rds_socket env s")
      case (Died m sd)
      with True frame_rds_socket[of s env] show ?thesis
        by (simp add: open_loop.simps)
    next
      case (Ret f s1)
      with frame_rds_socket[of s env] have "frame s s1" by simp
      from this "1.IH"[OF True Ret] have
        "frame s (final_state (open_loop env n (i + 1) (socks[nat i := (socks ! nat i)\<lparr>fd := f\<rparr>]) s1))"
        by (rule frame_trans)
      with True Ret show ?thesis
        by (simp add: open_loop.simps[of env n i])
    qed
  qed
qed


lemma send_loop_none:
  "per_sock \<le> idx \<Longrightarrow> send_loop env f dst msglen per_sock idx ret s = (ret, s)"
  by (simp add: send_loop.simps)

lemma seq_loop_frame:
  "seq_loop env nsocks dst n_socks per_sock msglen idx ret s = (r, s') \<Longrightarrow>
     \<exists>evs x ol. s' = s\<lparr>errno := x, trace := trace s @ evs, out := out s @ ol\<rparr> \<and>
        (\<forall>l\<in>set ol. is_Spun l) \<and> (per_sock \<le> 0 \<longrightarrow> sends_of evs = [])"
proof (induction "nat (n_socks - idx)" arbitrary: idx ret s)
  case 0
  then have "n_socks \<le> idx" by simp
  with "0.prems" have "s' = s"
    by (auto simp: seq_loop.simps)
  then show ?case
    by (intro exI[of _ "[]"] exI[of _ "errno s"]) simp
next
  case (Suc m)
  let ?f = "fd (nsocks ! nat idx)"
  from Suc.hyps(2) have lt: "idx < n_socks" by simp
  have m: "m = nat (n_socks - (idx + 1))" using Suc.hyps(2) by simp
  obtain ret1 s1 where so: "send_on_one_socket env ?f dst msglen per_sock s = (ret1, s1)"
    by (cases "send_on_one_socket env ?f dst msglen per_sock s")
  from send_loop_shape[OF so[unfolded send_on_one_socket_def]]
  obtain evs1 x1 where s1: "s1 = s\<lparr>errno := x1, trace := trace s @ evs1\<rparr>"
    by auto
  have none1: "per_sock \<le> 0 \<longrightarrow> sends_of evs1 = []"
  proof
    assume "per_sock \<le> 0"
    with so have "s1 = s" by (simp add: send_on_one_socket_def send_loop_none)
    with s1 have "trace s = trace s @ evs1"
      by (metis (no_types, lifting) state.select_convs(8) state.surjective state.update_convs(7,8))
    then show "sends_of evs1 = []" by simp
  qed
  show ?case
  proof (cases "ret1 \<noteq> 0")
    case True
    with Suc.prems lt so have "s' = s1"
      by (auto simp: seq_loop.simps[of env nsocks dst n_socks per_sock msglen idx])
    with s1 none1 show ?thesis
      by (intro exI[of _ evs1] exI[of _ x1] exI[of _ "[]"]) simp
  next
    case False
    show ?thesis
    proof (cases "use_siocoutq s")
      case nospin: False
      with Suc.prems lt so False s1
      have rec: "seq_loop env nsocks dst n_socks per_sock msglen (idx + 1) ret1 s1 = (r, s')"
        by (simp add: seq_loop.simps[of env nsocks dst n_socks per_sock msglen idx])
      from Suc.hyps(1)[OF m rec]
      obtain evs3 x3 o3 where s': "s' = s1\<lparr>errno := x3, trace := trace s1 @ evs3, out := out s1 @ o3\<rparr>"
        and sp3: "\<forall>l\<in>set o3. is_Spun l" and none3: "per_sock \<le> 0 \<longrightarrow> sends_of evs3 = []"
        by blast
      with s1 none1 show ?thesis
        by (intro exI[of _ "evs1 @ evs3"] exI[of _ x3] exI[of _ o3]) simp
    next
      case spin: True
      obtain c s2 where sp: "spin_on_one_socket env ?f s1 = (c, s2)"
        by (cases "spin_on_one_socket env ?f s1")
      from spin_loop_shape[OF sp[unfolded spin_on_one_socket_def]]
      obtain evs2 x2 where s2: "s2 = s1\<lparr>errno := x2, trace := trace s1 @ evs2\<rparr>"
        and all2: "\<forall>ev\<in>set evs2. is_outq ev"
        by blast
      let ?s3 = "s2\<lparr>out := out s2 @ [Spun c idx]\<rparr>"
      from Suc.prems lt so False s1 spin sp
      have rec: "seq_loop env nsocks dst n_socks per_sock msglen (idx + 1) ret1 ?s3 = (r, s')"
        by (simp add: seq_loop.simps[of env nsocks dst n_socks per_sock msglen idx])
      from Suc.hyps(1)[OF m rec]
      obtain evs3 x3 o3 where s': "s' = ?s3\<lparr>errno := x3, trace := trace ?s3 @ evs3, out := out ?s3 @ o3\<rparr>"
        and sp3: "\<forall>l\<in>set o3. is_Spun l" and none3: "per_sock \<le> 0 \<longrightarrow> sends_of evs3 = []"
        by blast
      with s1 s2 none1 sends_of_outq[OF all2] show ?thesis
        by (intro exI[of _ "evs1 @ evs2 @ evs3"] exI[of _ x3] exI[of _ "Spun c idx # o3"]) simp
    qed
  qed
qed

lemma int_of_ulong_0 [simp]: "int_of_ulong 0 = 0"
  by (simp add: int_of_ulong_def)

lemma sends_of_gettimeofday [simp]: "sends_of (Ev_gettimeofday tv # evs) = sends_of evs"
  by (simp add: sends_of_def)

text \<open>What \<open>run_test\<close> does to the output, and to the trace when the packet count is 0.\<close>

lemma run_test_returns:
  assumes "run_test env s = Ret r s'"
  shows "r = 0 \<and> (\<exists>ol t. out s' = out s @ ol @
            [Summary (int_of_ulong (nsockets s)) t (int_of_ulong (opt_count s * nsockets s))]
          \<and> (\<forall>l\<in>set ol. is_Spun l))"
proof -
  let ?o = "open_loop env (nsockets s) 0 (replicate (unat (nsockets s)) socket_uninit) s"
  from assms obtain socks s1 where o: "?o = Ret socks s1"
    by (auto simp: run_test_def split: result.splits)
  from frame_open_loop[of s env "nsockets s" 0 "replicate (unat (nsockets s)) socket_uninit"] o
  have f1: "frame s s1" by simp
  obtain tv1 s2 where g1: "sys_gettimeofday env s1 = (tv1, s2)"
    by (cases "sys_gettimeofday env s1")
  from frame_sys_gettimeofday[of s1 env] g1 have "frame s1 s2" by simp
  with f1 have f2: "frame s s2" by (rule frame_trans)
  let ?len = "if sin_family (opt_dstaddr s1) = AF_INET then sizeof_sockaddr_in else sizeof_sockaddr_in6"
  obtain rr s3 where q: "send_on_n_sockets_seq env socks (opt_dstaddr s2)
        (int_of_ulong (nsockets s2)) (int_of_ulong (opt_count s2)) ?len s2 = (rr, s3)"
    by (cases "send_on_n_sockets_seq env socks (opt_dstaddr s2)
        (int_of_ulong (nsockets s2)) (int_of_ulong (opt_count s2)) ?len s2")
  from seq_loop_frame[OF q[unfolded send_on_n_sockets_seq_def]]
  obtain evs x ol where s3: "s3 = s2\<lparr>errno := x, trace := trace s2 @ evs, out := out s2 @ ol\<rparr>"
    and sp: "\<forall>l\<in>set ol. is_Spun l"
    by blast
  obtain tv2 s4 where g2: "sys_gettimeofday env s3 = (tv2, s4)"
    by (cases "sys_gettimeofday env s3")
  then have s4: "s4 = s3\<lparr>trace := trace s3 @ [Ev_gettimeofday tv2]\<rparr>"
    by (auto simp: sys_gettimeofday_def Let_def)
  from assms o g1 q g2
  have r: "r = 0" and s': "s' = s4\<lparr>out := out s4 @
      [Summary (int_of_ulong (nsockets s4)) (tdiff_of tv2 tv1) (int_of_ulong (opt_count s4 * nsockets s4))]\<rparr>"
    by (auto simp: run_test_def Let_def)
  from f2 s3 s4 have "nsockets s4 = nsockets s" "opt_count s4 = opt_count s" "out s4 = out s @ ol"
    by (auto simp: frame_def)
  with s' sp r show ?thesis
    by (auto intro!: exI[of _ ol])
qed

lemma run_test_no_count:
  assumes "opt_count s = 0"
  shows "sends_of (trace (final_state (run_test env s))) = sends_of (trace s)"
proof -
  let ?o = "open_loop env (nsockets s) 0 (replicate (unat (nsockets s)) socket_uninit) s"
  have fo: "frame s (final_state ?o)"
    by (rule frame_open_loop)
  show ?thesis
  proof (cases ?o)
    case (Died m sd)
    with fo show ?thesis
      by (auto simp: run_test_def frame_def)
  next
    case (Ret socks s1)
    with fo have f1: "frame s s1" by simp
    obtain tv1 s2 where g1: "sys_gettimeofday env s1 = (tv1, s2)"
      by (cases "sys_gettimeofday env s1")
    from frame_sys_gettimeofday[of s1 env] g1 have "frame s1 s2" by simp
    with f1 have f2: "frame s s2" by (rule frame_trans)
    with assms have c: "opt_count s2 = 0" by (simp add: frame_def)
    let ?len = "if sin_family (opt_dstaddr s1) = AF_INET then sizeof_sockaddr_in else sizeof_sockaddr_in6"
    obtain rr s3 where q: "send_on_n_sockets_seq env socks (opt_dstaddr s2)
          (int_of_ulong (nsockets s2)) (int_of_ulong (opt_count s2)) ?len s2 = (rr, s3)"
      by (cases "send_on_n_sockets_seq env socks (opt_dstaddr s2)
          (int_of_ulong (nsockets s2)) (int_of_ulong (opt_count s2)) ?len s2")
    from seq_loop_frame[OF q[unfolded send_on_n_sockets_seq_def]] c
    obtain evs x ol where s3: "s3 = s2\<lparr>errno := x, trace := trace s2 @ evs, out := out s2 @ ol\<rparr>"
      and none: "sends_of evs = []"
      by auto
    obtain tv2 s4 where g2: "sys_gettimeofday env s3 = (tv2, s4)"
      by (cases "sys_gettimeofday env s3")
    then have s4: "s4 = s3\<lparr>trace := trace s3 @ [Ev_gettimeofday tv2]\<rparr>"
      by (auto simp: sys_gettimeofday_def Let_def)
    from Ret g1 q g2
    have "trace (final_state (run_test env s)) = trace s4"
      by (simp add: run_test_def Let_def)
    with f2 s3 s4 none show ?thesis
      by (auto simp: frame_def)
  qed
qed

text \<open>
  C6, as the code has it. Whenever \<open>run_test\<close> returns, whether or not a send failed
  on the way, it returns 0 and the last line it printed reports as number of packets the
  full product \<open>(int)(opt_count * nsockets)\<close>: the result of the scheduler is discarded.
\<close>

theorem reported_total_is_product:
  assumes "run_test env s = Ret r s'"
  shows "r = 0 \<and> (\<exists>t. last (out s') =
           Summary (int_of_ulong (nsockets s)) t (int_of_ulong (opt_count s * nsockets s)))"
  using run_test_returns[OF assms] by auto

lemma run_fail5_c1:
  "run_test (env_send_fails 5 113) state_c1_n8
     = Ret 0 (final_state (run_test (env_send_fails 5 113) state_c1_n8))"
  by code_simp

theorem reported_total_is_product_witness:
  "run_test (env_send_fails 5 113) state_c1_n8
     = Ret 0 (final_state (run_test (env_send_fails 5 113) state_c1_n8))
   \<and> first_failure (trace (final_state (run_test (env_send_fails 5 113) state_c1_n8))) = Some 113
   \<and> (\<exists>t. last (out (final_state (run_test (env_send_fails 5 113) state_c1_n8))) = Summary 8 t 8)"
proof -
  have ff: "first_failure (trace (final_state (run_test (env_send_fails 5 113) state_c1_n8))) = Some 113"
    by code_simp
  have n: "int_of_ulong (nsockets state_c1_n8) = 8"
    "int_of_ulong (opt_count state_c1_n8 * nsockets state_c1_n8) = 8"
    by (simp_all add: state_c1_n8_def init_state_def int_of_ulong_def)
  from reported_total_is_product[OF run_fail5_c1] run_fail5_c1 ff n show ?thesis
    by simp
qed

text \<open>
  C6 as stated fails: with \<open>-n 8 -c 1\<close>, on a host where the send on the third socket
  (descriptor 5) fails, two sends succeed, one fails, and the summary reports 8 packets.
\<close>

theorem reported_total_counterexample:
  "out (final_state (main (env_send_fails 5 113) [Opt_n (Some 8), Opt_c (Some 1)] [Some addr_localhost]))
     = [Summary 8 2 8]
   \<and> sends_of (trace (final_state
        (main (env_send_fails 5 113) [Opt_n (Some 8), Opt_c (Some 1)] [Some addr_localhost])))
     = [Ev_sendto 3 addr_localhost 16 None, Ev_sendto 4 addr_localhost 16 None,
        Ev_sendto 5 addr_localhost 16 (Some 113)]"
  by code_simp

text \<open>
  C9, as the code has it. When the command line has no \<open>-c\<close> option, so that the packet
  count keeps its initial value 0, the whole run issues no send at all, on any host.
\<close>

theorem default_count_sends_nothing:
  assumes "\<not> list_ex is_Opt_c opts"
  shows "sends_of (trace (final_state (main env opts args))) = []"
proof (cases "getopt_loop opts False False init_state")
  case (Died m sd)
  with getopt_loop_trace[of opts False False init_state] show ?thesis
    by (simp add: main_def init_state_def)
next
  case (Ret ab s)
  obtain a b where ab: "ab = (a, b)" by (cases ab)
  from Ret ab have g: "getopt_loop opts False False init_state = Ret (a, b) s" by simp
  from getopt_loop_trace[of opts False False init_state] g have tr: "trace s = []"
    by (simp add: init_state_def)
  from getopt_loop_keeps_count[OF g assms] have c: "opt_count s = 0"
    by (simp add: init_state_def)
  show ?thesis
  proof (cases "length args \<noteq> 1")
    case True
    with g tr show ?thesis by (simp add: main_def)
  next
    case False
    show ?thesis
    proof (cases "parse_addr (hd args) s")
      case (Died m sd)
      with g tr False parse_addr_died[OF Died] show ?thesis by (simp add: main_def)
    next
      case r: (Ret v s1)
      from parse_addr_state[OF r] have s1: "s1 = s" .
      show ?thesis
      proof (cases v)
        case None
        with g tr False r s1 show ?thesis by (simp add: main_def)
      next
        case (Some d)
        let ?s2 = "s\<lparr>opt_dstaddr := d\<rparr>"
        from c tr have "sends_of (trace (final_state (run_test env ?s2))) = []"
          using run_test_no_count[of ?s2 env] by simp
        with g tr False r s1 Some c show ?thesis
          by (simp add: main_def Let_def)
      qed
    qed
  qed
qed

theorem default_count_sends_nothing_witness:
  "\<not> list_ex is_Opt_c [Opt_s]
   \<and> sends_of (trace (final_state (main env_busy [Opt_s] [Some addr_localhost6]))) = []"
  using default_count_sends_nothing[of "[Opt_s]" env_busy "[Some addr_localhost6]"]
  by simp

text \<open>
  C9 as stated fails: without options, on a host where every call succeeds, eight
  sockets are created, no probe is sent on any of them, and the summary reports 0
  packets.
\<close>

theorem default_count_counterexample:
  "rds_fds (trace (final_state (main env_ok [] [Some addr_localhost]))) = [3, 4, 5, 6, 7, 8, 9, 10]
   \<and> sends_of (trace (final_state (main env_ok [] [Some addr_localhost]))) = []
   \<and> out (final_state (main env_ok [] [Some addr_localhost])) = [Summary 8 0 0]"
  by code_simp

text \<open>
  C7. The elapsed time is computed by an integer division, so the fraction of a
  millisecond is dropped before the conversion to \<open>float\<close>: for timestamps 1500
  microseconds apart, \<open>usec_sub\<close> gives 1500 and \<open>tdiff\<close> is 1, not 1.5.
\<close>

theorem elapsed_ms_truncated:
  "sint (usec_sub \<lparr>tv_sec = 10, tv_usec = 1500\<rparr> \<lparr>tv_sec = 10, tv_usec = 0\<rparr>) = 1500
   \<and> tdiff_of \<lparr>tv_sec = 10, tv_usec = 1500\<rparr> \<lparr>tv_sec = 10, tv_usec = 0\<rparr> = 1
   \<and> 1000 * tdiff_of \<lparr>tv_sec = 10, tv_usec = 1500\<rparr> \<lparr>tv_sec = 10, tv_usec = 0\<rparr>
       \<noteq> sint (usec_sub \<lparr>tv_sec = 10, tv_usec = 1500\<rparr> \<lparr>tv_sec = 10, tv_usec = 0\<rparr>)"
  by code_simp

section \<open>Runs on a host where every call succeeds\<close>

lemma sys_socket_succeeds:
  "all_calls_succeed env \<Longrightarrow>
   \<exists>v. 0 \<le> v \<and> sys_socket env d t s = (v, s\<lparr>trace := trace s @ [Ev_socket d t (Inr v)]\<rparr>)"
proof -
  assume "all_calls_succeed env"
  then have "\<forall>h d t. \<exists>v. 0 \<le> v \<and> socket_sys env h d t = Inr v"
    by (simp add: all_calls_succeed_def)
  then obtain v where "0 \<le> v" "socket_sys env (trace s) d t = Inr v"
    by meson
  then show ?thesis by (auto simp: sys_socket_def)
qed

lemma sys_connect_succeeds:
  "all_calls_succeed env \<Longrightarrow>
   sys_connect env f a l s = (0, s\<lparr>trace := trace s @ [Ev_connect f a l None]\<rparr>)"
  by (simp add: all_calls_succeed_def sys_connect_def)

lemma sys_getsockname_succeeds:
  "all_calls_succeed env \<Longrightarrow>
   \<exists>a. (sin_family a = AF_INET \<or> sin_family a = AF_INET6) \<and>
     sys_getsockname env f s
       = (0, s\<lparr>opt_srcaddr := a, trace := trace s @ [Ev_getsockname f (Inr a)]\<rparr>)"
proof -
  assume "all_calls_succeed env"
  then have "\<forall>h f. \<exists>a. getsockname_sys env h f = Inr a
      \<and> (sin_family a = AF_INET \<or> sin_family a = AF_INET6)"
    by (simp add: all_calls_succeed_def)
  then obtain a where "sin_family a = AF_INET \<or> sin_family a = AF_INET6"
    "getsockname_sys env (trace s) f = Inr a"
    by meson
  then show ?thesis by (auto simp: sys_getsockname_def)
qed

lemma sys_bind_succeeds:
  "all_calls_succeed env \<Longrightarrow>
   sys_bind env f a l s = (0, s\<lparr>trace := trace s @ [Ev_bind f a l None]\<rparr>)"
  by (simp add: all_calls_succeed_def sys_bind_def)

lemma sys_ioctl_settos_succeeds:
  "all_calls_succeed env \<Longrightarrow>
   sys_ioctl_settos env f s = (0, s\<lparr>trace := trace s @ [Ev_settos f (opt_tos s) None]\<rparr>)"
  by (simp add: all_calls_succeed_def sys_ioctl_settos_def)

lemma rds_fds_append [simp]: "rds_fds (xs @ ys) = rds_fds xs @ rds_fds ys"
  by (induction xs rule: rds_fds.induct) simp_all

lemma rds_guess_src_ok:
  assumes ok: "all_calls_succeed env"
    and dst: "sin_family (opt_dstaddr s) = AF_INET \<or> sin_family (opt_dstaddr s) = AF_INET6"
  shows "\<exists>s' evs. rds_guess_src env s = Ret () s' \<and> trace s' = trace s @ evs \<and> rds_fds evs = []
           \<and> (sin_family (opt_srcaddr s') = AF_INET \<or> sin_family (opt_srcaddr s') = AF_INET6)
           \<and> sin_family (opt_dstaddr s') = sin_family (opt_dstaddr s)"
proof -
  let ?d = "PF_FAMILY (sin_family (opt_dstaddr s))"
  from sys_socket_succeeds[OF ok, of ?d SOCK_DGRAM s]
  obtain ufd where ufd: "0 \<le> ufd"
    and a: "sys_socket env ?d SOCK_DGRAM s = (ufd, s\<lparr>trace := trace s @ [Ev_socket ?d SOCK_DGRAM (Inr ufd)]\<rparr>)"
    by blast
  let ?s1 = "s\<lparr>trace := trace s @ [Ev_socket ?d SOCK_DGRAM (Inr ufd)]\<rparr>"
  let ?alen = "if sin_family (opt_dstaddr ?s1) = AF_INET then sizeof_sockaddr_in else sizeof_sockaddr_in6"
  let ?s2 = "?s1\<lparr>opt_dstaddr := (opt_dstaddr ?s1)\<lparr>sin_port := htons 1\<rparr>\<rparr>"
  let ?s3 = "?s2\<lparr>trace := trace ?s2 @ [Ev_connect ufd (opt_dstaddr ?s2) ?alen None]\<rparr>"
  have b: "sys_connect env ufd (opt_dstaddr ?s2) ?alen ?s2 = (0, ?s3)"
    by (rule sys_connect_succeeds[OF ok])
  let ?s4 = "?s3\<lparr>opt_dstaddr := (opt_dstaddr ?s3)\<lparr>sin_port := 0\<rparr>\<rparr>"
  from sys_getsockname_succeeds[OF ok, of ufd ?s4]
  obtain x where x: "sin_family x = AF_INET \<or> sin_family x = AF_INET6"
    and c: "sys_getsockname env ufd ?s4
       = (0, ?s4\<lparr>opt_srcaddr := x, trace := trace ?s4 @ [Ev_getsockname ufd (Inr x)]\<rparr>)"
    by blast
  let ?s5 = "?s4\<lparr>opt_srcaddr := x, trace := trace ?s4 @ [Ev_getsockname ufd (Inr x)]\<rparr>"
  from ufd dst a b c have "rds_guess_src env s = Ret () (sys_close ufd ?s5)"
    unfolding rds_guess_src_def by (simp add: Let_def)
  moreover have "trace (sys_close ufd ?s5) = trace s @
      [Ev_socket ?d SOCK_DGRAM (Inr ufd), Ev_connect ufd (opt_dstaddr ?s2) ?alen None,
       Ev_getsockname ufd (Inr x), Ev_close ufd]"
    by (simp add: sys_close_def)
  moreover have "rds_fds [Ev_socket ?d SOCK_DGRAM (Inr ufd), Ev_connect ufd (opt_dstaddr ?s2) ?alen None,
       Ev_getsockname ufd (Inr x), Ev_close ufd] = []"
    by simp
  moreover have "sin_family (opt_srcaddr (sys_close ufd ?s5)) = sin_family x"
    "sin_family (opt_dstaddr (sys_close ufd ?s5)) = sin_family (opt_dstaddr s)"
    by (simp_all add: sys_close_def)
  ultimately show ?thesis using x by metis
qed

lemma rds_socket_ok:
  assumes ok: "all_calls_succeed env"
    and dst: "sin_family (opt_dstaddr s) = AF_INET \<or> sin_family (opt_dstaddr s) = AF_INET6"
    and src: "sin_family (opt_srcaddr s) = AF_UNSPEC \<or> sin_family (opt_srcaddr s) = AF_INET
              \<or> sin_family (opt_srcaddr s) = AF_INET6"
  shows "\<exists>f s' evs. rds_socket env s = Ret f s' \<and> trace s' = trace s @ evs \<and> rds_fds evs = [f]
           \<and> (sin_family (opt_srcaddr s') = AF_INET \<or> sin_family (opt_srcaddr s') = AF_INET6)
           \<and> sin_family (opt_dstaddr s') = sin_family (opt_dstaddr s)"
proof -
  from sys_socket_succeeds[OF ok, of PF_RDS SOCK_SEQPACKET s]
  obtain f where f: "0 \<le> f"
    and a: "sys_socket env PF_RDS SOCK_SEQPACKET s
              = (f, s\<lparr>trace := trace s @ [Ev_socket PF_RDS SOCK_SEQPACKET (Inr f)]\<rparr>)"
    by blast
  let ?s1 = "s\<lparr>trace := trace s @ [Ev_socket PF_RDS SOCK_SEQPACKET (Inr f)]\<rparr>"
  let ?g = "if sin_family (opt_srcaddr ?s1) = AF_UNSPEC then rds_guess_src env ?s1 else Ret () ?s1"
  have "\<exists>s2 evs2. ?g = Ret () s2 \<and> trace s2 = trace ?s1 @ evs2 \<and> rds_fds evs2 = []
           \<and> (sin_family (opt_srcaddr s2) = AF_INET \<or> sin_family (opt_srcaddr s2) = AF_INET6)
           \<and> sin_family (opt_dstaddr s2) = sin_family (opt_dstaddr ?s1)"
  proof (cases "sin_family (opt_srcaddr ?s1) = AF_UNSPEC")
    case True
    with rds_guess_src_ok[OF ok, of ?s1] dst show ?thesis by simp
  next
    case False
    with src show ?thesis
      by (intro exI[of _ ?s1] exI[of _ "[]"]) simp
  qed
  then obtain s2 evs2 where g: "?g = Ret () s2" and tr2: "trace s2 = trace ?s1 @ evs2"
    and fd2: "rds_fds evs2 = []"
    and src2: "sin_family (opt_srcaddr s2) = AF_INET \<or> sin_family (opt_srcaddr s2) = AF_INET6"
    and dst2: "sin_family (opt_dstaddr s2) = sin_family (opt_dstaddr ?s1)"
    by blast
  let ?alen = "if sin_family (opt_srcaddr s2) = AF_INET then sizeof_sockaddr_in else sizeof_sockaddr_in6"
  let ?s3 = "s2\<lparr>opt_srcaddr := (opt_srcaddr s2)\<lparr>sin_port := 0\<rparr>\<rparr>"
  let ?s4 = "?s3\<lparr>trace := trace ?s3 @ [Ev_bind f (opt_srcaddr ?s3) ?alen None]\<rparr>"
  have b: "sys_bind env f (opt_srcaddr ?s3) ?alen ?s3 = (0, ?s4)"
    by (rule sys_bind_succeeds[OF ok])
  let ?s5 = "?s4\<lparr>trace := trace ?s4 @ [Ev_settos f (opt_tos ?s4) None]\<rparr>"
  have c: "sys_ioctl_settos env f ?s4 = (0, ?s5)"
    by (rule sys_ioctl_settos_succeeds[OF ok])
  let ?s' = "if opt_tos ?s4 \<noteq> 0 then ?s5 else ?s4"
  from f a g src2 b c have r: "rds_socket env s = Ret f ?s'"
    unfolding rds_socket_def by (simp add: Let_def)
  let ?evs = "[Ev_socket PF_RDS SOCK_SEQPACKET (Inr f)] @ evs2 @ [Ev_bind f (opt_srcaddr ?s3) ?alen None]
      @ (if opt_tos ?s4 \<noteq> 0 then [Ev_settos f (opt_tos ?s4) None] else [])"
  from tr2 have "trace ?s' = trace s @ ?evs" by simp
  moreover from f fd2 have "rds_fds ?evs = [f]" by simp
  moreover from src2 have "sin_family (opt_srcaddr ?s') = AF_INET \<or> sin_family (opt_srcaddr ?s') = AF_INET6"
    by simp
  moreover from dst2 have "sin_family (opt_dstaddr ?s') = sin_family (opt_dstaddr s)"
    by simp
  ultimately show ?thesis using r by blast
qed


lemma int_of_ulong_small: "uint x < 2 ^ 31 \<Longrightarrow> int_of_ulong x = uint x"
proof -
  assume a: "uint x < 2 ^ 31"
  have "uint (ucast x :: 32 word) = take_bit 32 (uint x)"
    by (simp add: unsigned_ucast_eq)
  also from a have "\<dots> = uint x"
    by (intro take_bit_int_eq_self) simp_all
  finally have u: "uint (ucast x :: 32 word) = uint x" .
  have "sint (ucast x :: 32 word) = signed_take_bit 31 (uint (ucast x :: 32 word))"
    by (simp add: sint_uint)
  also have "\<dots> = uint x"
  proof -
    have "- (2 ^ 31) \<le> (0::int)" by simp
    also have "0 \<le> uint x" by simp
    finally have "- (2 ^ 31) \<le> uint x" .
    with a u show ?thesis
      by (simp add: signed_take_bit_int_eq_self_iff)
  qed
  finally show ?thesis by (simp add: int_of_ulong_def)
qed

lemma rds_fds_sends: "\<forall>ev\<in>set evs. is_sendto ev \<or> is_outq ev \<Longrightarrow> rds_fds evs = []"
proof (induction evs)
  case Nil
  then show ?case by simp
next
  case (Cons ev evs)
  then show ?case by (cases ev) simp_all
qed

lemma open_loop_ok:
  assumes ok: "all_calls_succeed env"
  shows "0 \<le> i \<Longrightarrow> uint n \<le> int (length socks) \<Longrightarrow>
     sin_family (opt_dstaddr s) = AF_INET \<or> sin_family (opt_dstaddr s) = AF_INET6 \<Longrightarrow>
     sin_family (opt_srcaddr s) = AF_UNSPEC \<or> sin_family (opt_srcaddr s) = AF_INET
       \<or> sin_family (opt_srcaddr s) = AF_INET6 \<Longrightarrow>
     \<exists>socks' s' evs. open_loop env n i socks s = Ret socks' s' \<and> length socks' = length socks
        \<and> trace s' = trace s @ evs
        \<and> rds_fds evs = map fd (drop (nat i) (take (unat n) socks'))
        \<and> take (nat i) socks' = take (nat i) socks
        \<and> sin_family (opt_dstaddr s') = sin_family (opt_dstaddr s)"
proof (induction "nat (uint n - i)" arbitrary: i socks s)
  case 0
  have un: "int (unat n) = uint n" by simp
  from 0 have le: "uint n \<le> i" by simp
  then have "open_loop env n i socks s = Ret socks s"
    by (simp add: open_loop.simps)
  moreover from le un have "unat n \<le> nat i" by linarith
  then have "drop (nat i) (take (unat n) socks) = []"
    by simp
  ultimately show ?case
    by (intro exI[of _ socks] exI[of _ s] exI[of _ "[]"]) simp
next
  case (Suc m)
  from Suc.hyps(2) have lt: "i < uint n" by simp
  have un: "int (unat n) = uint n" by simp
  from lt Suc.prems(1,2) un have lt': "nat i < unat n" "unat n \<le> length socks" "nat i < length socks"
    by linarith+
  from rds_socket_ok[OF ok Suc.prems(3,4)]
  obtain f s1 evs1 where r: "rds_socket env s = Ret f s1" and tr1: "trace s1 = trace s @ evs1"
    and fd1: "rds_fds evs1 = [f]"
    and src1: "sin_family (opt_srcaddr s1) = AF_INET \<or> sin_family (opt_srcaddr s1) = AF_INET6"
    and dst1: "sin_family (opt_dstaddr s1) = sin_family (opt_dstaddr s)"
    by blast
  let ?socks1 = "socks[nat i := (socks ! nat i)\<lparr>fd := f\<rparr>]"
  have m: "m = nat (uint n - (i + 1))" using Suc.hyps(2) by simp
  have i1: "0 \<le> i + 1" "nat (i + 1) = Suc (nat i)" using Suc.prems(1) by simp_all
  from Suc.prems(2) have len1: "uint n \<le> int (length ?socks1)" by simp
  from dst1 Suc.prems(3)
  have dst1': "sin_family (opt_dstaddr s1) = AF_INET \<or> sin_family (opt_dstaddr s1) = AF_INET6"
    by simp
  from src1 have src1': "sin_family (opt_srcaddr s1) = AF_UNSPEC \<or> sin_family (opt_srcaddr s1) = AF_INET
       \<or> sin_family (opt_srcaddr s1) = AF_INET6"
    by simp
  from Suc.hyps(1)[OF m i1(1) len1 dst1' src1']
  obtain socks' s' evs' where o: "open_loop env n (i + 1) ?socks1 s1 = Ret socks' s'"
    and len': "length socks' = length ?socks1"
    and tr': "trace s' = trace s1 @ evs'"
    and fds': "rds_fds evs' = map fd (drop (nat (i + 1)) (take (unat n) socks'))"
    and tk': "take (nat (i + 1)) socks' = take (nat (i + 1)) ?socks1"
    and dst': "sin_family (opt_dstaddr s') = sin_family (opt_dstaddr s1)"
    by blast
  from lt r o have res: "open_loop env n i socks s = Ret socks' s'"
    by (simp add: open_loop.simps[of env n i])
  from len' have len'': "length socks' = length socks" by simp
  from tk' i1(2) have tk'': "take (Suc (nat i)) socks' = take (Suc (nat i)) ?socks1"
    by (simp only:)
  have "socks' ! nat i = take (Suc (nat i)) socks' ! nat i" by simp
  also have "\<dots> = take (Suc (nat i)) ?socks1 ! nat i" by (simp only: tk'')
  also have "\<dots> = ?socks1 ! nat i" by simp
  finally have "socks' ! nat i = ?socks1 ! nat i" .
  with lt'(3) have fdi: "fd (socks' ! nat i) = f" by simp
  have "take (nat i) socks' = take (nat i) (take (Suc (nat i)) socks')" by (simp add: min_def)
  also have "\<dots> = take (nat i) (take (Suc (nat i)) ?socks1)" by (simp only: tk'')
  also have "\<dots> = take (nat i) ?socks1" by (simp add: min_def)
  also have "\<dots> = take (nat i) socks" by simp
  finally have tk: "take (nat i) socks' = take (nat i) socks" .
  from lt'(1,2) len'' have "drop (nat i) (take (unat n) socks')
      = socks' ! nat i # drop (Suc (nat i)) (take (unat n) socks')"
    by (intro drop_take_step) simp_all
  with fdi fds' fd1 i1(2) have "rds_fds (evs1 @ evs') = map fd (drop (nat i) (take (unat n) socks'))"
    by simp
  moreover from tr1 tr' have "trace s' = trace s @ (evs1 @ evs')" by simp
  ultimately show ?case
    using res len'' tk dst' dst1
    by (intro exI[of _ socks'] exI[of _ s'] exI[of _ "evs1 @ evs'"]) simp
qed

lemma posix_of_all_calls_succeed: "all_calls_succeed env \<Longrightarrow> posix_sendto env"
  by (simp add: all_calls_succeed_def posix_sendto_def)

lemma group_sends_fds:
  "group_sends socks dst msglen p = concat (map (\<lambda>f. ok_sends f dst msglen p) (map fd socks))"
  by (simp add: group_sends_def comp_def)

lemma run_test_ok:
  assumes ok: "all_calls_succeed env"
    and dst: "sin_family (opt_dstaddr s) = AF_INET \<or> sin_family (opt_dstaddr s) = AF_INET6"
    and src: "sin_family (opt_srcaddr s) = AF_UNSPEC \<or> sin_family (opt_srcaddr s) = AF_INET
              \<or> sin_family (opt_srcaddr s) = AF_INET6"
    and n: "uint (nsockets s) < 2 ^ 31" and c: "uint (opt_count s) < 2 ^ 31"
  shows "\<exists>s' t. run_test env s = Ret 0 s'
      \<and> nsockets s' = nsockets s \<and> opt_count s' = opt_count s
      \<and> length (rds_fds (new_events s s')) = unat (nsockets s)
      \<and> sends_of (new_events s s') =
          concat (map (\<lambda>f. ok_sends f (opt_dstaddr s')
                        (if sin_family (opt_dstaddr s) = AF_INET
                         then sizeof_sockaddr_in else sizeof_sockaddr_in6)
                        (unat (opt_count s)))
                   (rds_fds (new_events s s')))
      \<and> last (out s') = Summary (uint (nsockets s)) t (int_of_ulong (opt_count s * nsockets s))"
proof -
  let ?n = "nsockets s"
  let ?socks0 = "replicate (unat ?n) socket_uninit"
  have un: "int (unat ?n) = uint ?n" by simp
  have uc: "nat (uint (opt_count s)) = unat (opt_count s)" by simp
  from un have len0: "uint ?n \<le> int (length ?socks0)" by simp
  from open_loop_ok[OF ok _ len0 dst src, of 0]
  obtain socks s1 evs1 where o: "open_loop env ?n 0 ?socks0 s = Ret socks s1"
    and len: "length socks = unat ?n"
    and tr1: "trace s1 = trace s @ evs1"
    and fds1: "rds_fds evs1 = map fd (take (unat ?n) socks)"
    and dst1: "sin_family (opt_dstaddr s1) = sin_family (opt_dstaddr s)"
    by auto
  from frame_open_loop[of s env ?n 0 ?socks0] o have f1: "frame s s1" by simp
  with tr1 have no1: "sends_of evs1 = []"
    by (auto simp: frame_def)
  from f1 have keep1: "opt_count s1 = opt_count s" "nsockets s1 = nsockets s" "out s1 = out s"
    by (simp_all add: frame_def)
  let ?tv1 = "gettimeofday_sys env (trace s1)"
  let ?s2 = "s1\<lparr>trace := trace s1 @ [Ev_gettimeofday ?tv1]\<rparr>"
  have g1: "sys_gettimeofday env s1 = (?tv1, ?s2)"
    by (simp add: sys_gettimeofday_def Let_def)
  let ?len = "if sin_family (opt_dstaddr s) = AF_INET then sizeof_sockaddr_in else sizeof_sockaddr_in6"
  let ?ns = "int_of_ulong (nsockets ?s2)"
  let ?ps = "int_of_ulong (opt_count ?s2)"
  from n keep1 have ns: "?ns = uint ?n" by (simp add: int_of_ulong_small)
  from c keep1 have ps: "?ps = uint (opt_count s)" by (simp add: int_of_ulong_small)
  obtain rr s3 where q: "send_on_n_sockets_seq env socks (opt_dstaddr ?s2) ?ns ?ps ?len ?s2 = (rr, s3)"
    by (cases "send_on_n_sockets_seq env socks (opt_dstaddr ?s2) ?ns ?ps ?len ?s2")
  from ns len un have bound: "?ns \<le> int (length socks)" by simp
  have z: "(0::int) \<le> 0" by simp
  from seq_loop_shape[OF posix_of_all_calls_succeed[OF ok] bound z q[unfolded send_on_n_sockets_seq_def]]
  obtain evs x ol where s3: "s3 = ?s2\<lparr>errno := x, trace := trace ?s2 @ evs, out := out ?s2 @ ol\<rparr>"
    and all: "\<forall>ev\<in>set evs. is_sendto ev \<or> is_outq ev"
    and sh: "run_shape socks (opt_dstaddr ?s2) ?len (nat ?ps) (nat 0) (nat ?ns) rr (sends_of evs)"
    and fl: "rr \<noteq> 0 \<longrightarrow> (\<exists>h f. sendto_sys env h f (opt_dstaddr ?s2) ?len = Some rr)"
    by blast
  from fl ok have rr: "rr = 0"
    by (auto simp: all_calls_succeed_def)
  from ns len un have "nat ?ns = length socks" by simp
  with sh rr ps uc have snd: "sends_of evs = group_sends socks (opt_dstaddr s1) ?len (unat (opt_count s))"
    by (simp add: run_shape_def)
  let ?tv2 = "gettimeofday_sys env (trace s3)"
  let ?s4 = "s3\<lparr>trace := trace s3 @ [Ev_gettimeofday ?tv2]\<rparr>"
  have g2: "sys_gettimeofday env s3 = (?tv2, ?s4)"
    by (simp add: sys_gettimeofday_def Let_def)
  let ?s' = "?s4\<lparr>out := out ?s4 @
      [Summary (int_of_ulong (nsockets ?s4)) (tdiff_of ?tv2 ?tv1)
         (int_of_ulong (opt_count ?s4 * nsockets ?s4))]\<rparr>"
  from o g1 q g2 dst1 have res: "run_test env s = Ret 0 ?s'"
    by (simp add: run_test_def Let_def)
  from s3 tr1 have ne: "new_events s ?s' = evs1 @ [Ev_gettimeofday ?tv1] @ evs @ [Ev_gettimeofday ?tv2]"
    by (simp add: new_events_def)
  from ne fds1 len rds_fds_sends[OF all] have fds: "rds_fds (new_events s ?s') = map fd socks"
    by simp
  from ne no1 snd have sends: "sends_of (new_events s ?s')
      = group_sends socks (opt_dstaddr s1) ?len (unat (opt_count s))"
    by (simp add: sends_of_def)
  from s3 have d': "opt_dstaddr ?s' = opt_dstaddr s1" by simp
  from s3 keep1 n have lst: "last (out ?s') = Summary (uint ?n) (tdiff_of ?tv2 ?tv1)
      (int_of_ulong (opt_count s * nsockets s))"
    by (simp add: int_of_ulong_small)
  from fds len have "length (rds_fds (new_events s ?s')) = unat ?n" by simp
  moreover from s3 keep1 have "nsockets ?s' = nsockets s" "opt_count ?s' = opt_count s"
    by simp_all
  moreover from sends fds d' have "sends_of (new_events s ?s') =
          concat (map (\<lambda>f. ok_sends f (opt_dstaddr ?s') ?len (unat (opt_count s)))
                   (rds_fds (new_events s ?s')))"
    by (simp only: group_sends_fds)
  ultimately show ?thesis using res lst by blast
qed


lemma getopt_loop_out: "out (final_state (getopt_loop opts a b s)) = out s"
proof (induction opts a b s rule: getopt_loop.induct)
  case (4 x opts a b s)
  then show ?case
    by (cases "parse_addr x s") (auto split: option.splits dest: parse_addr_state parse_addr_died)
qed (auto split: option.splits)

lemma getopt_loop_src_cases:
  "getopt_loop opts a b s = Ret (a', b') s' \<Longrightarrow>
     (a' = a \<and> opt_srcaddr s' = opt_srcaddr s) \<or>
     (a' \<and> (\<exists>x. Opt_I (Some x) \<in> set opts \<and> opt_srcaddr s' = x
            \<and> (sin_family x = AF_INET \<or> sin_family x = AF_INET6)))"
proof (induction opts a b s rule: getopt_loop.induct)
  case (4 x opts a b s)
  show ?case
  proof (cases x)
    case None
    with 4 show ?thesis by (simp add: parse_addr_def)
  next
    case (Some y)
    show ?thesis
    proof (cases "sin_family y = AF_INET \<or> sin_family y = AF_INET6")
      case False
      with 4 Some show ?thesis by (simp add: parse_addr_def)
    next
      case True
      with "4.prems" Some
      have rec: "getopt_loop opts True b (s\<lparr>opt_srcaddr := y\<rparr>) = Ret (a', b') s'"
        by (simp add: parse_addr_def)
      from "4.IH"[OF _ _ rec, of "Some y"] True Some
      have "(a' = True \<and> opt_srcaddr s' = y) \<or>
        (a' \<and> (\<exists>x. Opt_I (Some x) \<in> set opts \<and> opt_srcaddr s' = x
            \<and> (sin_family x = AF_INET \<or> sin_family x = AF_INET6)))"
        by (simp add: parse_addr_def)
      with True Some show ?thesis by auto
    qed
  qed
qed (auto split: option.splits if_splits)

lemma getopt_loop_last_count:
  assumes "getopt_loop (pre @ Opt_c (Some c) # post) a b s = Ret (a', b') s'"
    and "\<not> list_ex is_Opt_c post"
  shows "opt_count s' = c"
proof -
  from assms(1) obtain a1 b1 s1 where
    rest: "getopt_loop (Opt_c (Some c) # post) a1 b1 s1 = Ret (a', b') s'"
    by (auto simp: getopt_loop_append split: result.splits)
  then have "getopt_loop post a1 b1 (s1\<lparr>opt_count := c\<rparr>) = Ret (a', b') s'"
    by simp
  from getopt_loop_keeps_count[OF this assms(2)] show ?thesis by simp
qed

lemma small_word_product:
  fixes c n :: ulong
  assumes "c < 2 ^ 15" "n < 2 ^ 15"
  shows "int_of_ulong (c * n) = uint c * uint n"
proof -
  from assms have c: "uint c < 2 ^ 15" and n: "uint n < 2 ^ 15"
    by (simp_all add: word_less_def)
  have "uint c * uint n < 2 ^ 15 * 2 ^ 15"
    by (intro mult_strict_mono c n) simp_all
  then have lt: "uint c * uint n < 2 ^ 31" by simp
  then have "uint c * uint n < 2 ^ LENGTH(64)" by simp
  then have "uint (c * n) = uint c * uint n"
    by (simp only: uint_mult_lem)
  with lt show ?thesis by (simp add: int_of_ulong_small)
qed


lemma new_events_from_empty: "trace s = [] \<Longrightarrow> new_events s s' = trace s'"
  by (simp add: new_events_def)

text \<open>
  C3. Take a command line whose options are accepted, without \<open>-n\<close>, whose last \<open>-c\<close>
  gives a packet count \<open>c\<close> with \<open>0 < c < 8\<close>, and whose source addresses, if any, are
  of the family of the destination. Then \<open>main\<close> runs the test with group size \<open>c\<close>, on
  every host. On a host where every call succeeds, the run creates exactly \<open>c\<close>
  sockets, sends exactly \<open>c\<close> probes on each of them, in order of creation, and
  reports \<open>c\<close> sockets and \<open>c * c\<close> packets (for \<open>c = 2\<close>: 2 sockets, 2 sends each, 4
  packets).
\<close>

theorem count_clamps_group_size:
  assumes acc: "list_all opt_accepted (pre @ Opt_c (Some c) # post)"
    and lastc: "\<not> list_ex is_Opt_c post"
    and non: "\<not> list_ex is_Opt_n (pre @ post)"
    and c0: "0 < c" and c8: "c < 8"
    and d: "sin_family d = AF_INET \<or> sin_family d = AF_INET6"
    and src: "\<forall>x. Opt_I (Some x) \<in> set (pre @ post) \<longrightarrow> sin_family x = sin_family d"
  shows "(\<exists>s3. main env (pre @ Opt_c (Some c) # post) [Some d] = run_test env s3
            \<and> nsockets s3 = c \<and> opt_count s3 = c \<and> trace s3 = [])
     \<and> (all_calls_succeed env \<longrightarrow>
         (\<exists>s' t. main env (pre @ Opt_c (Some c) # post) [Some d] = Ret 0 s'
            \<and> nsockets s' = c
            \<and> length (rds_fds (trace s')) = unat c
            \<and> sends_of (trace s') =
                concat (map (\<lambda>f. ok_sends f (opt_dstaddr s')
                              (if sin_family d = AF_INET then sizeof_sockaddr_in else sizeof_sockaddr_in6)
                              (unat c))
                         (rds_fds (trace s')))
            \<and> last (out s') = Summary (uint c) t (uint c * uint c)))"
proof -
  let ?opts = "pre @ Opt_c (Some c) # post"
  from getopt_loop_accepted[OF acc]
  obtain a' b' sg where g: "getopt_loop ?opts False False init_state = Ret (a', b') sg"
    by blast
  from getopt_loop_last_count[OF g lastc] have cnt: "opt_count sg = c" .
  from non have "\<not> list_ex is_Opt_n ?opts" by simp
  from getopt_loop_keeps_nsockets[OF g this] have ns: "b' = False" "nsockets sg = 8"
    by (simp_all add: init_state_def)
  from getopt_loop_trace[of ?opts False False init_state] g have tr: "trace sg = []"
    by (simp add: init_state_def)
  from getopt_loop_src_cases[OF g] src
  have sc: "(a' = False \<and> sin_family (opt_srcaddr sg) = AF_UNSPEC) \<or>
            (sin_family (opt_srcaddr sg) = sin_family d)"
    by (auto simp: init_state_def sockaddr_zero_def)
  let ?s3 = "sg\<lparr>opt_dstaddr := d, nsockets := c\<rparr>"
  from c0 have cne: "c \<noteq> 0" by auto
  from g cnt ns sc d cne c8 have m: "main env ?opts [Some d] = run_test env ?s3"
    by (auto simp: main_def parse_addr_ok Let_def)
  from c8 have uc: "uint c < 8" by (simp add: word_less_def)
  then have uc31: "uint c < 2 ^ 31" by simp
  from c8 have c15: "c < 2 ^ 15"
    by (simp add: word_less_def)
  have p1: "sin_family (opt_dstaddr ?s3) = AF_INET \<or> sin_family (opt_dstaddr ?s3) = AF_INET6"
    using d by simp
  have p2: "sin_family (opt_srcaddr ?s3) = AF_UNSPEC \<or> sin_family (opt_srcaddr ?s3) = AF_INET
              \<or> sin_family (opt_srcaddr ?s3) = AF_INET6"
    using sc d by auto
  have p3: "uint (nsockets ?s3) < 2 ^ 31" using uc31 by simp
  have p4: "uint (opt_count ?s3) < 2 ^ 31" using uc31 cnt by simp
  from m cnt tr
  have part1: "\<exists>s3. main env ?opts [Some d] = run_test env s3
            \<and> nsockets s3 = c \<and> opt_count s3 = c \<and> trace s3 = []"
    by (intro exI[of _ ?s3]) simp
  have part2: "\<exists>s' t. main env ?opts [Some d] = Ret 0 s'
            \<and> nsockets s' = c
            \<and> length (rds_fds (trace s')) = unat c
            \<and> sends_of (trace s') =
                concat (map (\<lambda>f. ok_sends f (opt_dstaddr s')
                              (if sin_family d = AF_INET then sizeof_sockaddr_in else sizeof_sockaddr_in6)
                              (unat c))
                         (rds_fds (trace s')))
            \<and> last (out s') = Summary (uint c) t (uint c * uint c)"
    if ok: "all_calls_succeed env"
  proof -
  from run_test_ok[OF ok p1 p2 p3 p4]
  obtain s' t where r: "run_test env ?s3 = Ret 0 s'"
    and n': "nsockets s' = nsockets ?s3"
    and len: "length (rds_fds (new_events ?s3 s')) = unat (nsockets ?s3)"
    and snd: "sends_of (new_events ?s3 s') =
          concat (map (\<lambda>f. ok_sends f (opt_dstaddr s')
                        (if sin_family (opt_dstaddr ?s3) = AF_INET
                         then sizeof_sockaddr_in else sizeof_sockaddr_in6)
                        (unat (opt_count ?s3)))
                   (rds_fds (new_events ?s3 s')))"
    and lst: "last (out s') = Summary (uint (nsockets ?s3)) t
                (int_of_ulong (opt_count ?s3 * nsockets ?s3))"
    by blast
  from tr have ne: "new_events ?s3 s' = trace s'"
    by (simp add: new_events_from_empty)
  from lst cnt small_word_product[OF c15 c15]
  have "last (out s') = Summary (uint c) t (uint c * uint c)" by simp
  with m r n' len snd ne cnt show ?thesis by simp
  qed
  from part1 part2 show ?thesis by blast
qed

theorem count_clamps_group_size_witness:
  "list_all opt_accepted ([Opt_I (Some addr_localhost)] @ Opt_c (Some 2) # [Opt_s])
   \<and> \<not> list_ex is_Opt_c [Opt_s] \<and> \<not> list_ex is_Opt_n ([Opt_I (Some addr_localhost)] @ [Opt_s])
   \<and> (0::ulong) < 2 \<and> (2::ulong) < 8
   \<and> (sin_family addr_localhost = AF_INET \<or> sin_family addr_localhost = AF_INET6)
   \<and> all_calls_succeed env_ok
   \<and> (\<exists>s3. main env_ok ([Opt_I (Some addr_localhost)] @ Opt_c (Some 2) # [Opt_s]) [Some addr_localhost]
              = run_test env_ok s3
            \<and> nsockets s3 = 2 \<and> opt_count s3 = 2 \<and> trace s3 = [])
   \<and> (\<exists>s' t. main env_ok ([Opt_I (Some addr_localhost)] @ Opt_c (Some 2) # [Opt_s]) [Some addr_localhost]
              = Ret 0 s'
      \<and> nsockets s' = 2
      \<and> length (rds_fds (trace s')) = 2
      \<and> sends_of (trace s') =
          concat (map (\<lambda>f. ok_sends f (opt_dstaddr s') sizeof_sockaddr_in 2) (rds_fds (trace s')))
      \<and> last (out s') = Summary 2 t 4)"
proof -
  have h1: "all_calls_succeed env_ok"
    by (simp add: all_calls_succeed_def env_ok_def)
  have h2: "list_all opt_accepted ([Opt_I (Some addr_localhost)] @ Opt_c (Some 2) # [Opt_s])"
    by (simp add: addr_localhost_def)
  have h3: "\<not> list_ex is_Opt_c [Opt_s]" by simp
  have h4: "\<not> list_ex is_Opt_n ([Opt_I (Some addr_localhost)] @ [Opt_s])" by simp
  have h5: "(0::ulong) < 2" by simp
  have h6: "(2::ulong) < 8" by simp
  have h7: "sin_family addr_localhost = AF_INET \<or> sin_family addr_localhost = AF_INET6"
    by (simp add: addr_localhost_def)
  have h8: "\<forall>x. Opt_I (Some x) \<in> set ([Opt_I (Some addr_localhost)] @ [Opt_s])
              \<longrightarrow> sin_family x = sin_family addr_localhost"
    by simp
  have a: "sin_family addr_localhost = AF_INET" by (simp add: addr_localhost_def)
  from count_clamps_group_size[OF h2 h3 h4 h5 h6 h7 h8, of env_ok] h1 h2 h3 h4 h5 h6 h7 a
  show ?thesis by simp
qed

lemma ok_sends_1: "ok_sends f dst msglen (Suc 0) = [Ev_sendto f dst msglen None]"
  by (simp add: ok_sends_def)

text \<open>
  C4, as the code has it. On a host where every call succeeds, with no source given and
  packet count 1: when the group size is not given, it is clamped to the count, so the
  run creates exactly one socket, sends exactly one probe on it and reports 1 socket and
  1 packet; when the group size 8 is given explicitly, the run creates exactly 8
  sockets, sends exactly one probe on each and reports 8 packets.
\<close>

theorem count_one_runs_one_socket:
  assumes ok: "all_calls_succeed env"
    and d: "sin_family d = AF_INET \<or> sin_family d = AF_INET6"
  shows "(\<exists>s' f t. main env [Opt_c (Some 1)] [Some d] = Ret 0 s'
           \<and> rds_fds (trace s') = [f]
           \<and> sends_of (trace s') =
               [Ev_sendto f (opt_dstaddr s')
                  (if sin_family d = AF_INET then sizeof_sockaddr_in else sizeof_sockaddr_in6) None]
           \<and> last (out s') = Summary 1 t 1)
       \<and> (\<exists>s' t. main env [Opt_n (Some 8), Opt_c (Some 1)] [Some d] = Ret 0 s'
           \<and> length (rds_fds (trace s')) = 8
           \<and> sends_of (trace s') =
               map (\<lambda>f. Ev_sendto f (opt_dstaddr s')
                  (if sin_family d = AF_INET then sizeof_sockaddr_in else sizeof_sockaddr_in6) None)
                 (rds_fds (trace s'))
           \<and> last (out s') = Summary 8 t 8)"
proof
  let ?len = "if sin_family d = AF_INET then sizeof_sockaddr_in else sizeof_sockaddr_in6"
  let ?s1 = "init_state\<lparr>opt_count := 1, opt_dstaddr := d, nsockets := 1\<rparr>"
  from d have m: "main env [Opt_c (Some 1)] [Some d] = run_test env ?s1"
    by (simp add: main_def parse_addr_ok Let_def init_state_def)
  have p1: "sin_family (opt_dstaddr ?s1) = AF_INET \<or> sin_family (opt_dstaddr ?s1) = AF_INET6"
    using d by simp
  have p2: "sin_family (opt_srcaddr ?s1) = AF_UNSPEC \<or> sin_family (opt_srcaddr ?s1) = AF_INET
              \<or> sin_family (opt_srcaddr ?s1) = AF_INET6"
    by (simp add: init_state_def sockaddr_zero_def)
  have p3: "uint (nsockets ?s1) < 2 ^ 31" by simp
  have p4: "uint (opt_count ?s1) < 2 ^ 31" by simp
  from run_test_ok[OF ok p1 p2 p3 p4]
  obtain s' t where r: "run_test env ?s1 = Ret 0 s'"
    and len: "length (rds_fds (new_events ?s1 s')) = unat (nsockets ?s1)"
    and snd: "sends_of (new_events ?s1 s') =
          concat (map (\<lambda>f. ok_sends f (opt_dstaddr s')
                        (if sin_family (opt_dstaddr ?s1) = AF_INET
                         then sizeof_sockaddr_in else sizeof_sockaddr_in6)
                        (unat (opt_count ?s1)))
                   (rds_fds (new_events ?s1 s')))"
    and lst: "last (out s') = Summary (uint (nsockets ?s1)) t
                (int_of_ulong (opt_count ?s1 * nsockets ?s1))"
    by blast
  have ne: "new_events ?s1 s' = trace s'"
    by (simp add: new_events_from_empty init_state_def)
  from len ne obtain f where f: "rds_fds (trace s') = [f]"
    by (auto simp: length_Suc_conv)
  from snd ne f have "sends_of (trace s') = [Ev_sendto f (opt_dstaddr s') ?len None]"
    by (simp add: ok_sends_1)
  moreover from lst have "last (out s') = Summary 1 t 1"
    by (simp add: int_of_ulong_def)
  ultimately show "\<exists>s' f t. main env [Opt_c (Some 1)] [Some d] = Ret 0 s'
           \<and> rds_fds (trace s') = [f]
           \<and> sends_of (trace s') = [Ev_sendto f (opt_dstaddr s') ?len None]
           \<and> last (out s') = Summary 1 t 1"
    using m r f by auto
next
  let ?len = "if sin_family d = AF_INET then sizeof_sockaddr_in else sizeof_sockaddr_in6"
  let ?s8 = "init_state\<lparr>opt_count := 1, opt_dstaddr := d, nsockets := 8\<rparr>"
  from d have m: "main env [Opt_n (Some 8), Opt_c (Some 1)] [Some d] = run_test env ?s8"
    by (simp add: main_def parse_addr_ok Let_def init_state_def nsockets_min_def nsockets_max_def)
  have p1: "sin_family (opt_dstaddr ?s8) = AF_INET \<or> sin_family (opt_dstaddr ?s8) = AF_INET6"
    using d by simp
  have p2: "sin_family (opt_srcaddr ?s8) = AF_UNSPEC \<or> sin_family (opt_srcaddr ?s8) = AF_INET
              \<or> sin_family (opt_srcaddr ?s8) = AF_INET6"
    by (simp add: init_state_def sockaddr_zero_def)
  have p3: "uint (nsockets ?s8) < 2 ^ 31" by simp
  have p4: "uint (opt_count ?s8) < 2 ^ 31" by simp
  from run_test_ok[OF ok p1 p2 p3 p4]
  obtain s' t where r: "run_test env ?s8 = Ret 0 s'"
    and len: "length (rds_fds (new_events ?s8 s')) = unat (nsockets ?s8)"
    and snd: "sends_of (new_events ?s8 s') =
          concat (map (\<lambda>f. ok_sends f (opt_dstaddr s')
                        (if sin_family (opt_dstaddr ?s8) = AF_INET
                         then sizeof_sockaddr_in else sizeof_sockaddr_in6)
                        (unat (opt_count ?s8)))
                   (rds_fds (new_events ?s8 s')))"
    and lst: "last (out s') = Summary (uint (nsockets ?s8)) t
                (int_of_ulong (opt_count ?s8 * nsockets ?s8))"
    by blast
  have ne: "new_events ?s8 s' = trace s'"
    by (simp add: new_events_from_empty init_state_def)
  from len ne have "length (rds_fds (trace s')) = 8" by simp
  moreover from snd ne have "sends_of (trace s') =
      map (\<lambda>f. Ev_sendto f (opt_dstaddr s') ?len None) (rds_fds (trace s'))"
    by (simp add: ok_sends_1)
  moreover from lst have "last (out s') = Summary 8 t 8"
    by (simp add: int_of_ulong_def)
  ultimately show "\<exists>s' t. main env [Opt_n (Some 8), Opt_c (Some 1)] [Some d] = Ret 0 s'
           \<and> length (rds_fds (trace s')) = 8
           \<and> sends_of (trace s') =
               map (\<lambda>f. Ev_sendto f (opt_dstaddr s') ?len None) (rds_fds (trace s'))
           \<and> last (out s') = Summary 8 t 8"
    using m r by auto
qed

theorem count_one_runs_one_socket_witness:
  "all_calls_succeed env_ok
   \<and> (sin_family addr_localhost = AF_INET \<or> sin_family addr_localhost = AF_INET6)
   \<and> (\<exists>s' f t. main env_ok [Opt_c (Some 1)] [Some addr_localhost] = Ret 0 s'
           \<and> rds_fds (trace s') = [f]
           \<and> sends_of (trace s') = [Ev_sendto f (opt_dstaddr s') sizeof_sockaddr_in None]
           \<and> last (out s') = Summary 1 t 1)"
proof -
  have h1: "all_calls_succeed env_ok"
    by (simp add: all_calls_succeed_def env_ok_def)
  have h2: "sin_family addr_localhost = AF_INET \<or> sin_family addr_localhost = AF_INET6"
    by (simp add: addr_localhost_def)
  have a: "sin_family addr_localhost = AF_INET" by (simp add: addr_localhost_def)
  from count_one_runs_one_socket[OF h1 h2] h1 h2 a show ?thesis by simp
qed

text \<open>
  C4 as stated fails: for \<open>-c 1 127.0.0.1\<close> on a host where every call succeeds, one
  socket is created (descriptor 3), not eight; one probe is sent and the summary
  reports 1 socket and 1 packet.
\<close>

theorem default_group_counterexample:
  "rds_fds (trace (final_state (main env_ok [Opt_c (Some 1)] [Some addr_localhost]))) = [3]
   \<and> length (rds_fds (trace (final_state (main env_ok [Opt_c (Some 1)] [Some addr_localhost])))) \<noteq> 8
   \<and> sends_of (trace (final_state (main env_ok [Opt_c (Some 1)] [Some addr_localhost])))
       = [Ev_sendto 3 addr_localhost 16 None]
   \<and> out (final_state (main env_ok [Opt_c (Some 1)] [Some addr_localhost])) = [Summary 1 1 1]"
  by code_simp

end
